theory Spec2Isabelle
  imports Complex_Main "HOL-Library.Log_Nat" "HOL-Library.Multiset"
begin

section \<open>JavaScript numbers\<close>

text \<open>
  A JavaScript number is an IEEE-754 binary64 value. A finite number is modelled by the
  real it denotes, and every arithmetic operator returns the exact result rounded to the
  nearest value with a 53-bit significand, ties to the even significand. The exponent is
  not bounded here: every quantity of the pipeline (pixel bytes, canvas coordinates,
  probabilities) lies far inside the normal range of binary64, where this is what the
  hardware computes. Division is only used with a divisor that the code has made non-zero
  (a constant, a guarded mass, the larger side of a found box, a non-empty batch).
\<close>

definition ilog2 :: "real \<Rightarrow> int" where
  "ilog2 x = (if 1 \<le> x then int (floorlog 2 (nat \<lfloor>x\<rfloor>)) - 1
              else - int (floorlog 2 (nat \<lceil>1 / x\<rceil> - 1)))"

definition rne :: "real \<Rightarrow> int" where
  "rne y = (let f = \<lfloor>y\<rfloor>; d = y - of_int f in
            if d < 1 / 2 then f else if 1 / 2 < d then f + 1
            else if even f then f else f + 1)"

definition fl :: "real \<Rightarrow> real" where
  "fl x = (if x = 0 then 0 else
            let u = 2 powi (ilog2 \<bar>x\<bar> - 52) in sgn x * of_int (rne (\<bar>x\<bar> / u)) * u)"

definition js_add :: "real \<Rightarrow> real \<Rightarrow> real" where
  "js_add a b = fl (a + b)"

definition js_sub :: "real \<Rightarrow> real \<Rightarrow> real" where
  "js_sub a b = fl (a - b)"

definition js_mul :: "real \<Rightarrow> real \<Rightarrow> real" where
  "js_mul a b = fl (a * b)"

definition js_div :: "real \<Rightarrow> real \<Rightarrow> real" where
  "js_div a b = fl (a / b)"

text \<open>The unit roundoff of binary64.\<close>

definition eps :: real where
  "eps = 1 / 2 ^ 53"

section \<open>Pixel arrays\<close>

text \<open>
  The \<^verbatim>\<open>data\<close> of an ImageData is a Uint8ClampedArray: bytes in RGBA order, row by row.
  Reading an index past the end yields \<^verbatim>\<open>undefined\<close> (here \<open>None\<close>), and
  \<^verbatim>\<open>undefined > 50\<close> is false.
\<close>

definition js_index :: "'a list \<Rightarrow> nat \<Rightarrow> 'a option" where
  "js_index xs i = (if i < length xs then Some (xs ! i) else None)"

definition gt50 :: "nat option \<Rightarrow> bool" where
  "gt50 v = (case v of None \<Rightarrow> False | Some n \<Rightarrow> 50 < n)"

section \<open>Preprocessing in script.js\<close>

record bbox_vars =
  bb_minX :: nat
  bb_minY :: nat
  bb_maxX :: nat
  bb_maxY :: nat
  bb_found :: bool

record bbox =
  box_minX :: nat
  box_minY :: nat
  box_w :: int
  box_h :: int

text \<open>The body of the inner loop of \<^verbatim>\<open>getBoundingBox\<close>, at column \<open>x\<close> of row \<open>y\<close>.\<close>

definition bbox_step :: "nat list \<Rightarrow> nat \<Rightarrow> nat \<Rightarrow> nat \<Rightarrow> bbox_vars \<Rightarrow> bbox_vars" where
  "bbox_step data w y x s =
     (if gt50 (js_index data ((y * w + x) * 4)) then
        s\<lparr>bb_minX := (if x < bb_minX s then x else bb_minX s),
          bb_maxX := (if bb_maxX s < x then x else bb_maxX s),
          bb_minY := (if y < bb_minY s then y else bb_minY s),
          bb_maxY := (if bb_maxY s < y then y else bb_maxY s),
          bb_found := True\<rparr>
      else s)"

definition getBoundingBox :: "nat list \<Rightarrow> nat \<Rightarrow> nat \<Rightarrow> bbox option" where
  "getBoundingBox data w h =
     (let s = fold (\<lambda>y. fold (bbox_step data w y) [0..<w]) [0..<h]
                \<lparr>bb_minX = w, bb_minY = h, bb_maxX = 0, bb_maxY = 0, bb_found = False\<rparr>
      in if bb_found s
         then Some \<lparr>box_minX = bb_minX s, box_minY = bb_minY s,
                    box_w = int (bb_maxX s) - int (bb_minX s) + 1,
                    box_h = int (bb_maxY s) - int (bb_minY s) + 1\<rparr>
         else None)"

record com_vars =
  cm_sumX :: real
  cm_sumY :: real
  cm_mass :: real

record centroid =
  com_x :: real
  com_y :: real

definition com_step :: "nat list \<Rightarrow> nat \<Rightarrow> nat \<Rightarrow> nat \<Rightarrow> com_vars \<Rightarrow> com_vars" where
  "com_step data w y x s =
     (case js_index data ((y * w + x) * 4) of
        None \<Rightarrow> s
      | Some val \<Rightarrow>
          if 50 < val then
            s\<lparr>cm_sumX := js_add (cm_sumX s) (js_mul (real x) (real val)),
              cm_sumY := js_add (cm_sumY s) (js_mul (real y) (real val)),
              cm_mass := js_add (cm_mass s) (real val)\<rparr>
          else s)"

definition getCenterOfMass :: "nat list \<Rightarrow> nat \<Rightarrow> nat \<Rightarrow> centroid option" where
  "getCenterOfMass data w h =
     (let s = fold (\<lambda>y. fold (com_step data w y) [0..<w]) [0..<h]
                \<lparr>cm_sumX = 0, cm_sumY = 0, cm_mass = 0\<rparr>
      in if cm_mass s = 0 then None
         else Some \<lparr>com_x = js_div (cm_sumX s) (cm_mass s),
                    com_y = js_div (cm_sumY s) (cm_mass s)\<rparr>)"

section \<open>Preprocessing in the second copy (part\_000)\<close>

definition bbox_step_part000 ::
  "nat list \<Rightarrow> nat \<Rightarrow> nat \<Rightarrow> nat \<Rightarrow> bbox_vars \<Rightarrow> bbox_vars" where
  "bbox_step_part000 data w y x s =
     (if gt50 (js_index data ((y * w + x) * 4)) then
        s\<lparr>bb_minX := (if x < bb_minX s then x else bb_minX s),
          bb_maxX := (if bb_maxX s < x then x else bb_maxX s),
          bb_minY := (if y < bb_minY s then y else bb_minY s),
          bb_maxY := (if bb_maxY s < y then y else bb_maxY s),
          bb_found := True\<rparr>
      else s)"

definition getBoundingBox_part000 :: "nat list \<Rightarrow> nat \<Rightarrow> nat \<Rightarrow> bbox option" where
  "getBoundingBox_part000 data w h =
     (let s = fold (\<lambda>y. fold (bbox_step_part000 data w y) [0..<w]) [0..<h]
                \<lparr>bb_minX = w, bb_minY = h, bb_maxX = 0, bb_maxY = 0, bb_found = False\<rparr>
      in if bb_found s
         then Some \<lparr>box_minX = bb_minX s, box_minY = bb_minY s,
                    box_w = int (bb_maxX s) - int (bb_minX s) + 1,
                    box_h = int (bb_maxY s) - int (bb_minY s) + 1\<rparr>
         else None)"

definition com_step_part000 ::
  "nat list \<Rightarrow> nat \<Rightarrow> nat \<Rightarrow> nat \<Rightarrow> com_vars \<Rightarrow> com_vars" where
  "com_step_part000 data w y x s =
     (case js_index data ((y * w + x) * 4) of
        None \<Rightarrow> s
      | Some val \<Rightarrow>
          if 50 < val then
            s\<lparr>cm_sumX := js_add (cm_sumX s) (js_mul (real x) (real val)),
              cm_sumY := js_add (cm_sumY s) (js_mul (real y) (real val)),
              cm_mass := js_add (cm_mass s) (real val)\<rparr>
          else s)"

definition getCenterOfMass_part000 :: "nat list \<Rightarrow> nat \<Rightarrow> nat \<Rightarrow> centroid option" where
  "getCenterOfMass_part000 data w h =
     (let s = fold (\<lambda>y. fold (com_step_part000 data w y) [0..<w]) [0..<h]
                \<lparr>cm_sumX = 0, cm_sumY = 0, cm_mass = 0\<rparr>
      in if cm_mass s = 0 then None
         else Some \<lparr>com_x = js_div (cm_sumX s) (cm_mass s),
                    com_y = js_div (cm_sumY s) (cm_mass s)\<rparr>)"

section \<open>Samples and ink\<close>

text \<open>
  The first channel of the sample at column \<open>x\<close>, row \<open>y\<close> of a raster of width \<open>w\<close>,
  and the set of ink samples of a \<open>w\<close> by \<open>h\<close> raster: those whose first channel
  exceeds 50.
\<close>

definition channel0 :: "nat list \<Rightarrow> nat \<Rightarrow> nat \<Rightarrow> nat \<Rightarrow> nat option" where
  "channel0 data w x y = js_index data ((y * w + x) * 4)"

definition is_ink :: "nat list \<Rightarrow> nat \<Rightarrow> nat \<times> nat \<Rightarrow> bool" where
  "is_ink data w p = gt50 (channel0 data w (fst p) (snd p))"

definition scan_order :: "nat \<Rightarrow> nat \<Rightarrow> (nat \<times> nat) list" where
  "scan_order w h = concat (map (\<lambda>y. map (\<lambda>x. (x, y)) [0..<w]) [0..<h])"

definition ink_samples :: "nat list \<Rightarrow> nat \<Rightarrow> nat \<Rightarrow> (nat \<times> nat) set" where
  "ink_samples data w h = set (filter (is_ink data w) (scan_order w h))"

section \<open>The canvas interface\<close>

text \<open>
  Canvases are rendered by the browser, outside this program. The calls the pipeline makes
  are the fields of an interface over an abstract canvas type: each drawing call returns
  the canvas it has drawn on. \<open>createCanvas w h\<close> is a new canvas element with its width
  and height set; \<open>getImageData c w h\<close> is the \<^verbatim>\<open>data\<close> of
  \<^verbatim>\<open>getContext('2d').getImageData(0, 0, w, h)\<close>. The smoothing quality of the drawing
  context is passed with each \<^verbatim>\<open>drawImage\<close>.
\<close>

datatype smoothing = Low | High

type_synonym rect = "real \<times> real \<times> real \<times> real"

record 'c canvas_api =
  createCanvas :: "nat \<Rightarrow> nat \<Rightarrow> 'c"
  fillRect :: "'c \<Rightarrow> string \<Rightarrow> rect \<Rightarrow> 'c"
  drawImage9 :: "'c \<Rightarrow> smoothing \<Rightarrow> 'c \<Rightarrow> rect \<Rightarrow> rect \<Rightarrow> 'c"
  drawImage3 :: "'c \<Rightarrow> 'c \<Rightarrow> real \<Rightarrow> real \<Rightarrow> 'c"
  getImageData :: "'c \<Rightarrow> nat \<Rightarrow> nat \<Rightarrow> nat list"

section \<open>The canonical frame (extractInputTensor in script.js)\<close>

definition HIDDEN_SIZE :: nat where
  "HIDDEN_SIZE = 560"

definition scale_of :: "bbox \<Rightarrow> real" where
  "scale_of b = js_div 20 (of_int (max (box_w b) (box_h b)))"

definition scaled_w :: "bbox \<Rightarrow> real" where
  "scaled_w b = js_mul (of_int (box_w b)) (scale_of b)"

definition scaled_h :: "bbox \<Rightarrow> real" where
  "scaled_h b = js_mul (of_int (box_h b)) (scale_of b)"

text \<open>The target canvas \<^verbatim>\<open>temp\<close> after the last \<^verbatim>\<open>drawImage\<close> of \<^verbatim>\<open>extractInputTensor\<close>.\<close>

definition renderFrame :: "'c canvas_api \<Rightarrow> 'c \<Rightarrow> bbox \<Rightarrow> real \<Rightarrow> real \<Rightarrow> 'c" where
  "renderFrame api hidden b shiftX shiftY =
     (let temp = fillRect api (createCanvas api 28 28) ''black'' (0, 0, 28, 28);
          sw = scaled_w b;
          sh = scaled_h b;
          scaler = drawImage9 api (createCanvas api 28 28) High hidden
                     (real (box_minX b), real (box_minY b), of_int (box_w b), of_int (box_h b))
                     (0, 0, sw, sh);
          helper = drawImage9 api (createCanvas api 28 28) Low scaler (0, 0, sw, sh)
                     (js_div (js_sub 28 sw) 2, js_div (js_sub 28 sh) 2, sw, sh);
          com = getCenterOfMass (getImageData api helper 28 28) 28 28;
          tx0 = js_div (js_sub 28 sw) 2;
          ty0 = js_div (js_sub 28 sh) 2;
          tx1 = (case com of None \<Rightarrow> tx0 | Some c \<Rightarrow> js_add tx0 (js_sub 14 (com_x c)));
          ty1 = (case com of None \<Rightarrow> ty0 | Some c \<Rightarrow> js_add ty0 (js_sub 14 (com_y c)));
          tx = js_add tx1 shiftX;
          ty = js_add ty1 shiftY
      in drawImage9 api temp Low scaler (0, 0, sw, sh) (tx, ty, sw, sh))"

text \<open>
  The read-back loop: \<^verbatim>\<open>for(let i=0; i<finalData.length; i+=4)\<close>, pushing the boosted
  first channel of each sample.
\<close>

definition boost :: "nat \<Rightarrow> real" where
  "boost raw = min 1 (js_mul (js_div (real raw) 255) (fl (13 / 10)))"

function read_back :: "nat list \<Rightarrow> nat \<Rightarrow> real list \<Rightarrow> real list" where
  "read_back finalData i input =
     (if i < length finalData
      then read_back finalData (i + 4) (input @ [boost (finalData ! i)])
      else input)"
  by pat_completeness auto
termination
  by (relation "measure (\<lambda>(finalData, i, input). length finalData - i)") auto

declare read_back.simps [simp del]

section \<open>The page and the model\<close>

text \<open>
  The state of the page that the prediction code reads or writes: the hidden drawing
  canvas, the 28 by 28 preview canvas, the loaded model (\<^verbatim>\<open>null\<close> until loading succeeds),
  the tensors that are allocated and not yet disposed, and the result text. The field
  \<open>bbox_log\<close> is not program state: it records, in order, the result of every call of
  \<^verbatim>\<open>getBoundingBox\<close> made by \<^verbatim>\<open>extractInputTensor\<close>, so that calls can be counted.
\<close>

datatype error = PredictFailed | DataFailed

record tf_model =
  m_predict :: "real list list \<Rightarrow> error + real list"
  m_data :: "real list \<Rightarrow> error + real list"

datatype shown = Unknown | Digit int

record 'c page =
  hiddenCanvas :: 'c
  sensorCanvas :: 'c
  model :: "tf_model option"
  live_tensors :: "nat list"
  next_tensor :: nat
  predictionResult :: shown
  bbox_log :: "bbox option list"

definition extractInputTensor ::
  "'c canvas_api \<Rightarrow> 'c page \<Rightarrow> real \<Rightarrow> real \<Rightarrow> real list option \<times> 'c page" where
  "extractInputTensor api st shiftX shiftY =
     (let rawData = getImageData api (hiddenCanvas st) HIDDEN_SIZE HIDDEN_SIZE;
          bbox = getBoundingBox rawData HIDDEN_SIZE HIDDEN_SIZE;
          st1 = st\<lparr>bbox_log := bbox_log st @ [bbox]\<rparr>
      in case bbox of
           None \<Rightarrow> (None, st1)
         | Some b \<Rightarrow>
             (let temp = renderFrame api (hiddenCanvas st1) b shiftX shiftY;
                  st2 = (if shiftX = 0 \<and> shiftY = 0
                         then st1\<lparr>sensorCanvas := drawImage3 api (sensorCanvas st1) temp 0 0\<rparr>
                         else st1);
                  finalData = getImageData api temp 28 28
              in (Some (read_back finalData 0 []), st2)))"

section \<open>Inference (the click handler of predictBtn in script.js)\<close>

definition shifts :: "(real \<times> real) list" where
  "shifts = [(0, 0), (0, 1), (0, - 1), (1, 0), (- 1, 0)]"

fun collect_inputs ::
  "'c canvas_api \<Rightarrow> (real \<times> real) list \<Rightarrow> real list list \<Rightarrow> 'c page \<Rightarrow> real list list \<times> 'c page"
  where
  "collect_inputs api [] batchInputs st = (batchInputs, st)"
| "collect_inputs api (s # ss) batchInputs st =
     (case extractInputTensor api st (fst s) (snd s) of
        (None, st') \<Rightarrow> collect_inputs api ss batchInputs st'
      | (Some inp, st') \<Rightarrow> collect_inputs api ss (batchInputs @ [inp]) st')"

text \<open>
  \<^verbatim>\<open>tf.tensor2d\<close> and \<^verbatim>\<open>model.predict\<close> allocate a tensor; \<^verbatim>\<open>dispose\<close> releases it.
\<close>

definition tf_alloc :: "'c page \<Rightarrow> nat \<times> 'c page" where
  "tf_alloc st =
     (next_tensor st,
      st\<lparr>live_tensors := next_tensor st # live_tensors st, next_tensor := Suc (next_tensor st)\<rparr>)"

definition tf_dispose :: "nat \<Rightarrow> 'c page \<Rightarrow> 'c page" where
  "tf_dispose t st = st\<lparr>live_tensors := removeAll t (live_tensors st)\<rparr>"

text \<open>
  Numbers of the averaged vector: \<open>None\<close> is \<^verbatim>\<open>NaN\<close>, which is what adding
  \<^verbatim>\<open>undefined\<close> (a read past the end of \<^verbatim>\<open>probs\<close>) gives.
\<close>

definition num_add :: "real option \<Rightarrow> real option \<Rightarrow> real option" where
  "num_add a b = (case a of None \<Rightarrow> None
                  | Some x \<Rightarrow> (case b of None \<Rightarrow> None | Some y \<Rightarrow> Some (js_add x y)))"

definition num_div :: "real option \<Rightarrow> real \<Rightarrow> real option" where
  "num_div a d = (case a of None \<Rightarrow> None | Some x \<Rightarrow> Some (js_div x d))"

definition average :: "real list \<Rightarrow> nat \<Rightarrow> real option list" where
  "average probs n =
     (let avg0 = replicate 10 (Some 0);
          avg1 = fold (\<lambda>i. fold (\<lambda>j avg. avg[j := num_add (avg ! j) (js_index probs (i * 10 + j))])
                            [0..<10]) [0..<n] avg0
      in fold (\<lambda>j avg. avg[j := num_div (avg ! j) (real n)]) [0..<10] avg1)"

text \<open>
  \<^verbatim>\<open>Math.max(...avg)\<close> and \<^verbatim>\<open>avg.indexOf(max)\<close>: with a \<^verbatim>\<open>NaN\<close> among the
  arguments the maximum is \<^verbatim>\<open>NaN\<close>, which \<^verbatim>\<open>indexOf\<close> never finds.
\<close>

fun index_from :: "nat \<Rightarrow> 'a \<Rightarrow> 'a list \<Rightarrow> int" where
  "index_from k v [] = - 1"
| "index_from k v (x # xs) = (if x = v then int k else index_from (Suc k) v xs)"

definition js_max :: "real option list \<Rightarrow> real option" where
  "js_max xs = (if None \<in> set xs \<or> xs = [] then None else Some (Max (the ` set xs)))"

definition index_of_max :: "real option list \<Rightarrow> int" where
  "index_of_max avg = (case js_max avg of None \<Rightarrow> - 1 | Some m \<Rightarrow> index_from 0 (Some m) avg)"

datatype exit_path = NoModel | EmptyCanvas | Completed "real option list" | Threw error

definition predictBtn_click :: "'c canvas_api \<Rightarrow> 'c page \<Rightarrow> exit_path \<times> 'c page" where
  "predictBtn_click api st =
     (case model st of
        None \<Rightarrow> (NoModel, st)
      | Some m \<Rightarrow>
          (case collect_inputs api shifts [] st of (batchInputs, st1) \<Rightarrow>
             if length batchInputs = 0
             then (EmptyCanvas, st1\<lparr>predictionResult := Unknown\<rparr>)
             else (case tf_alloc st1 of (batch, st2) \<Rightarrow>
               (case m_predict m batchInputs of
                  Inl e \<Rightarrow> (Threw e, st2)
                | Inr out \<Rightarrow>
                    (case tf_alloc st2 of (preds, st3) \<Rightarrow>
                       (case m_data m out of
                          Inl e \<Rightarrow> (Threw e, st3)
                        | Inr probs \<Rightarrow>
                            (let avg = average probs (length batchInputs);
                                 st4 = st3\<lparr>predictionResult := Digit (index_of_max avg)\<rparr>
                             in (Completed avg,
                                 tf_dispose preds (tf_dispose batch st4)))))))))"

section \<open>The contender list\<close>

text \<open>
  \<^verbatim>\<open>avg.map((p, i) => ({ p, i })).sort((a, b) => b.p - a.p).slice(0, 3)\<close>. An entry
  \<^verbatim>\<open>{p, i}\<close> is the pair \<open>(p, i)\<close>. \<^verbatim>\<open>Array.prototype.sort\<close> is stable: with a
  comparator it orders \<open>a\<close> before \<open>b\<close> when the comparator is negative, \<open>b\<close> before \<open>a\<close>
  when it is positive, and keeps the original order of the two otherwise. Insertion from
  the right end is one stable sort.
\<close>

fun js_insort :: "('a \<Rightarrow> 'a \<Rightarrow> real) \<Rightarrow> 'a \<Rightarrow> 'a list \<Rightarrow> 'a list" where
  "js_insort cmp a [] = [a]"
| "js_insort cmp a (b # bs) =
     (if cmp a b \<le> 0 then a # b # bs else b # js_insort cmp a bs)"

definition js_sort :: "('a \<Rightarrow> 'a \<Rightarrow> real) \<Rightarrow> 'a list \<Rightarrow> 'a list" where
  "js_sort cmp xs = foldr (js_insort cmp) xs []"

definition ranking :: "real list \<Rightarrow> (real \<times> nat) list" where
  "ranking avg = js_sort (\<lambda>a b. js_sub (fst b) (fst a)) (zip avg [0..<length avg])"

definition contenders :: "real list \<Rightarrow> (real \<times> nat) list" where
  "contenders avg = take 3 (ranking avg)"

section \<open>Auxiliary definitions for the proofs\<close>

text \<open>The loop body at a sample \<open>p = (x, y)\<close>, and the state after the whole scan.\<close>

abbreviation (input) bstep :: "nat list \<Rightarrow> nat \<Rightarrow> nat \<times> nat \<Rightarrow> bbox_vars \<Rightarrow> bbox_vars" where
  "bstep data w \<equiv> (\<lambda>p. bbox_step data w (snd p) (fst p))"

definition bbox_scan :: "nat list \<Rightarrow> nat \<Rightarrow> nat \<Rightarrow> bbox_vars" where
  "bbox_scan data w h = fold (\<lambda>y. fold (bbox_step data w y) [0..<w]) [0..<h]
                \<lparr>bb_minX = w, bb_minY = h, bb_maxX = 0, bb_maxY = 0, bb_found = False\<rparr>"

section \<open>Concrete inputs\<close>

text \<open>A 2 by 2 raster with one ink sample, at column 1 of row 0; the value 50 is not ink.\<close>

definition one_dot :: "nat list" where
  "one_dot = [0, 0, 0, 255,  200, 0, 0, 255,  0, 0, 0, 255,  50, 0, 0, 255]"

text \<open>
  The loop body of \<^verbatim>\<open>getCenterOfMass\<close> at a sample, the state after its whole scan, the
  first channel of a sample as a number (0 where the array has no such index), and the
  exact sums over the ink samples of a raster: total intensity and the two moments.
\<close>

abbreviation (input) cstep :: "nat list \<Rightarrow> nat \<Rightarrow> nat \<times> nat \<Rightarrow> com_vars \<Rightarrow> com_vars" where
  "cstep data w \<equiv> (\<lambda>p. com_step data w (snd p) (fst p))"

definition com_scan :: "nat list \<Rightarrow> nat \<Rightarrow> nat \<Rightarrow> com_vars" where
  "com_scan data w h = fold (\<lambda>y. fold (com_step data w y) [0..<w]) [0..<h]
                \<lparr>cm_sumX = 0, cm_sumY = 0, cm_mass = 0\<rparr>"

definition value_at :: "nat list \<Rightarrow> nat \<Rightarrow> nat \<times> nat \<Rightarrow> nat" where
  "value_at data w p = (case channel0 data w (fst p) (snd p) of None \<Rightarrow> 0 | Some v \<Rightarrow> v)"

definition mass_of :: "nat list \<Rightarrow> nat \<Rightarrow> nat \<Rightarrow> nat" where
  "mass_of data w h = (\<Sum>p\<in>ink_samples data w h. value_at data w p)"

definition moment_x :: "nat list \<Rightarrow> nat \<Rightarrow> nat \<Rightarrow> nat" where
  "moment_x data w h = (\<Sum>p\<in>ink_samples data w h. fst p * value_at data w p)"

definition moment_y :: "nat list \<Rightarrow> nat \<Rightarrow> nat \<Rightarrow> nat" where
  "moment_y data w h = (\<Sum>p\<in>ink_samples data w h. snd p * value_at data w p)"

text \<open>A 2 by 1 raster with two ink samples of different intensity.\<close>

definition two_tone :: "nat list" where
  "two_tone = [100, 0, 0, 255,  200, 0, 0, 255]"

text \<open>A box 77 samples wide and one high, and a box of 100 by 50.\<close>

definition box_77_1 :: bbox where
  "box_77_1 = \<lparr>box_minX = 0, box_minY = 0, box_w = 77, box_h = 1\<rparr>"

definition box_100_50 :: bbox where
  "box_100_50 = \<lparr>box_minX = 0, box_minY = 0, box_w = 100, box_h = 50\<rparr>"

text \<open>
  A stand-in for the browser, used to run the pipeline on concrete inputs: a canvas is
  its list of RGBA bytes, drawing copies the bytes of the source over the start of the
  destination, and reading \<open>w\<close> by \<open>h\<close> samples back pads with transparent black.
\<close>

definition copy_over :: "nat list \<Rightarrow> nat list \<Rightarrow> nat list" where
  "copy_over dst src = take (length dst) src @ drop (length src) dst"

definition list_api :: "(nat list) canvas_api" where
  "list_api = \<lparr>createCanvas = (\<lambda>w h. replicate (4 * w * h) 0),
               fillRect = (\<lambda>c style r. c),
               drawImage9 = (\<lambda>dst q src sr dr. copy_over dst src),
               drawImage3 = (\<lambda>dst src x y. copy_over dst src),
               getImageData = (\<lambda>c w h. take (4 * w * h) (c @ replicate (4 * w * h) 0))\<rparr>"

text \<open>A model that answers every batch with the same row, and one whose call throws.\<close>

definition uniform_model :: tf_model where
  "uniform_model = \<lparr>m_predict = (\<lambda>batch. Inr (concat (map (\<lambda>row. replicate 10 (1 / 10)) batch))),
                    m_data = (\<lambda>out. Inr out)\<rparr>"

definition failing_model :: tf_model where
  "failing_model = \<lparr>m_predict = (\<lambda>batch. Inl PredictFailed), m_data = (\<lambda>out. Inr out)\<rparr>"

text \<open>
  A page whose hidden canvas is entirely white (all ink), with a given model; one tensor
  allocated earlier is still live.
\<close>

definition white_page :: "tf_model \<Rightarrow> (nat list) page" where
  "white_page m = \<lparr>hiddenCanvas = replicate (4 * HIDDEN_SIZE * HIDDEN_SIZE) 255,
                   sensorCanvas = replicate (4 * 28 * 28) 0,
                   model = Some m, live_tensors = [0], next_tensor = 1,
                   predictionResult = Unknown, bbox_log = []\<rparr>"

text \<open>The pixel data the pipeline reads from the hidden canvas of a page.\<close>

definition rawData :: "'c canvas_api \<Rightarrow> 'c page \<Rightarrow> nat list" where
  "rawData api st = getImageData api (hiddenCanvas st) HIDDEN_SIZE HIDDEN_SIZE"

text \<open>The 28 by 28 frame read back for a box and a shift, before the contrast boost.\<close>

definition frame_bytes :: "'c canvas_api \<Rightarrow> 'c page \<Rightarrow> bbox \<Rightarrow> real \<times> real \<Rightarrow> nat list" where
  "frame_bytes api st b s =
     getImageData api (renderFrame api (hiddenCanvas st) b (fst s) (snd s)) 28 28"

text \<open>Whether a handler invocation ended by a thrown error.\<close>

fun is_throw :: "exit_path \<Rightarrow> bool" where
  "is_throw (Threw e) = True"
| "is_throw _ = False"

text \<open>The input vector built for a box and a shift.\<close>

definition frame_input :: "'c canvas_api \<Rightarrow> 'c page \<Rightarrow> bbox \<Rightarrow> real \<times> real \<Rightarrow> real list" where
  "frame_input api st b s = read_back (frame_bytes api st b s) 0 []"

text \<open>
  The order of the contender list: higher probability first, and among equal
  probabilities the lower class index first.
\<close>

abbreviation (input) by_prob :: "real \<times> nat \<Rightarrow> real \<times> nat \<Rightarrow> real" where
  "by_prob \<equiv> (\<lambda>a b. js_sub (fst b) (fst a))"

definition ranks_before :: "real \<times> nat \<Rightarrow> real \<times> nat \<Rightarrow> bool" where
  "ranks_before a b \<longleftrightarrow> fst b < fst a \<or> (fst a = fst b \<and> snd a < snd b)"

text \<open>The averaged vector of the example, its entries being JavaScript number literals.\<close>

definition example_avg :: "real list" where
  "example_avg = map fl [1 / 10, 5 / 100, 6 / 10, 0, 5 / 100, 0, 1 / 10, 0, 1 / 10, 0]"

text \<open>
  Column \<open>j\<close> of \<open>n\<close> rows of \<^verbatim>\<open>probs\<close> summed from the first row on: as the handler
  computes it (with \<^verbatim>\<open>NaN\<close> for a missing entry), in JavaScript arithmetic on entries
  that are all present, and exactly.
\<close>

definition col_acc :: "real list \<Rightarrow> nat \<Rightarrow> nat \<Rightarrow> real option" where
  "col_acc probs n j = fold (\<lambda>i acc. num_add acc (js_index probs (i * 10 + j))) [0..<n] (Some 0)"

definition col_sum :: "real list \<Rightarrow> nat \<Rightarrow> nat \<Rightarrow> real" where
  "col_sum probs n j = fold (\<lambda>i acc. js_add acc (probs ! (i * 10 + j))) [0..<n] 0"

definition col_exact :: "real list \<Rightarrow> nat \<Rightarrow> nat \<Rightarrow> real" where
  "col_exact probs n j = (\<Sum>i<n. probs ! (i * 10 + j))"

text \<open>Two probability rows, flattened row by row as \<^verbatim>\<open>preds.data()\<close> returns them.\<close>

definition two_rows :: "real list" where
  "two_rows = [1 / 2, 1 / 4, 1 / 4, 0, 0, 0, 0, 0, 0, 0,
               1 / 8, 1 / 8, 1 / 4, 1 / 2, 0, 0, 0, 0, 0, 0]"

text \<open>
  A model whose prediction succeeds and whose read-back fails, and two rows whose ten
  entries are all the float32 number nearest to 0.1.
\<close>

definition failing_read_model :: tf_model where
  "failing_read_model =
     \<lparr>m_predict = (\<lambda>batch. Inr (concat (map (\<lambda>row. replicate 10 (1 / 10)) batch))),
      m_data = (\<lambda>out. Inl DataFailed)\<rparr>"

definition tenths :: "real list" where
  "tenths = replicate 20 (13421773 / 134217728)"

section \<open>Properties of rounding\<close>

lemma ilog2_ge1:
  assumes "1 \<le> x"
  shows "2 powi (ilog2 x) \<le> x" and "x < 2 powi (ilog2 x + 1)"
proof -
  let ?n = "nat \<lfloor>x\<rfloor>"
  have n: "0 < ?n" using assms by simp
  have k: "0 < floorlog 2 ?n" using n by (simp add: floorlog_def)
  have b: "2 ^ (floorlog 2 ?n - 1) \<le> ?n" "?n < 2 ^ (floorlog 2 ?n)"
    using floorlog_bounds[of ?n 2] n by auto
  have e: "ilog2 x = int (floorlog 2 ?n - 1)" using assms k by (simp add: ilog2_def)
  have "(2::real) ^ (floorlog 2 ?n - 1) \<le> real ?n"
    using b(1) by (metis of_nat_le_iff of_nat_numeral of_nat_power)
  also have "real ?n \<le> x" using assms by simp
  finally show "2 powi (ilog2 x) \<le> x" by (simp add: e)
  have "x < real ?n + 1" using assms by linarith
  also have "real ?n + 1 \<le> 2 ^ (floorlog 2 ?n)"
    using b(2) by (metis Suc_leI of_nat_Suc of_nat_le_iff of_nat_numeral of_nat_power add.commute)
  finally show "x < 2 powi (ilog2 x + 1)"
    using k by (simp add: e of_nat_diff power_int_def nat_add_distrib)
qed

lemma ilog2_lt1:
  assumes "0 < x" "x < 1"
  shows "2 powi (ilog2 x) \<le> x" and "x < 2 powi (ilog2 x + 1)"
proof -
  define c where "c = \<lceil>1 / x\<rceil>"
  define m where "m = nat c - 1"
  define k where "k = floorlog 2 m"
  have inv: "1 < 1 / x" using assms by simp
  have c2: "2 \<le> c" unfolding c_def using inv by linarith
  have cx: "1 / x \<le> of_int c" "of_int c - 1 < 1 / x"
    unfolding c_def by linarith+
  have m: "0 < m" unfolding m_def using c2 by linarith
  have rm: "real m = of_int c - 1"
    unfolding m_def using c2 by (simp add: of_nat_diff)
  have k: "0 < k" using m by (simp add: floorlog_def k_def)
  have b: "2 ^ (k - 1) \<le> m" "m < 2 ^ k"
    using floorlog_bounds[of m 2] m by (auto simp: k_def)
  have e: "ilog2 x = - int k"
    using assms by (simp add: ilog2_def k_def m_def c_def)
  have "real m + 1 \<le> 2 ^ k"
    using b(2) by (metis Suc_leI of_nat_Suc of_nat_le_iff of_nat_numeral of_nat_power add.commute)
  then have "1 / x \<le> 2 ^ k" using rm cx by linarith
  then have "1 / 2 ^ k \<le> x" using assms(1)
    by (simp add: field_simps)
  moreover have "(2::real) powi (- int k) = 1 / 2 ^ k"
    by (simp add: power_int_minus_divide)
  ultimately show "2 powi (ilog2 x) \<le> x"
    by (simp only: e)
  have "(2::real) ^ (k - 1) \<le> real m"
    using b(1) by (metis of_nat_le_iff of_nat_numeral of_nat_power)
  also have "real m < 1 / x" using rm cx by linarith
  finally have "x < 1 / 2 ^ (k - 1)" using assms(1)
    by (simp add: field_simps)
  moreover have "- int k + 1 = - int (k - 1)" using k by linarith
  then have "(2::real) powi (- int k + 1) = 1 / 2 ^ (k - 1)"
    by (simp only: power_int_minus_divide power_int_of_nat)
  ultimately show "x < 2 powi (ilog2 x + 1)"
    by (simp only: e)
qed

lemma ilog2_bounds:
  assumes "0 < x"
  shows "2 powi (ilog2 x) \<le> x" and "x < 2 powi (ilog2 x + 1)"
  using assms ilog2_ge1[of x] ilog2_lt1[of x] by (cases "1 \<le> x"; simp)+


lemma rne_err: "\<bar>of_int (rne y) - y\<bar> \<le> 1/2"
  unfolding rne_def Let_def by (auto; linarith)

lemma rne_of_int [simp]: "rne (of_int k) = k"
  by (simp add: rne_def)

lemma rne_numeral [simp]: "rne (numeral k) = numeral k"
  using rne_of_int[of "numeral k"] by (simp only: of_int_numeral)

lemma rne_nonneg: "0 \<le> y \<Longrightarrow> 0 \<le> rne y"
  unfolding rne_def Let_def by (auto; linarith)


lemma fl_0 [simp]: "fl 0 = 0"
  by (simp add: fl_def)

lemma fl_pos_err:
  assumes "0 < x"
  shows "\<bar>fl x - x\<bar> \<le> x / 2 ^ 53"
proof -
  define u :: real where "u = 2 powi (ilog2 x - 52)"
  have u0: "0 < u" by (simp add: u_def)
  have f: "fl x = of_int (rne (x / u)) * u"
    using assms by (simp add: fl_def u_def Let_def)
  have "\<bar>of_int (rne (x / u)) - x / u\<bar> \<le> 1 / 2" by (rule rne_err)
  then have "\<bar>of_int (rne (x / u)) - x / u\<bar> * u \<le> 1 / 2 * u"
    using u0 by (simp only: mult_le_cancel_right_pos)
  moreover have "\<bar>of_int (rne (x / u)) - x / u\<bar> * u = \<bar>fl x - x\<bar>"
  proof -
    have "(of_int (rne (x / u)) - x / u) * u = fl x - x"
      using u0 by (simp add: f field_simps)
    moreover have "\<bar>of_int (rne (x / u)) - x / u\<bar> * u = \<bar>(of_int (rne (x / u)) - x / u) * u\<bar>"
      using u0 by (simp add: abs_mult)
    ultimately show ?thesis by simp
  qed
  ultimately have 1: "\<bar>fl x - x\<bar> \<le> u / 2" by simp
  have "u = 2 powi (ilog2 x) / 2 ^ 52"
    by (simp add: u_def power_int_diff)
  also have "\<dots> \<le> x / 2 ^ 52"
    using ilog2_bounds(1)[OF assms] by (simp add: divide_right_mono)
  finally have "u / 2 \<le> x / 2 ^ 53" by simp
  with 1 show ?thesis by linarith
qed


lemma fl_minus: "fl (- x) = - fl x"
  by (simp add: fl_def Let_def)

lemma fl_err: "\<bar>fl x - x\<bar> \<le> \<bar>x\<bar> / 2 ^ 53"
proof (cases "0 < x")
  case True
  then show ?thesis using fl_pos_err[of x] by simp
next
  case False
  show ?thesis
  proof (cases "x = 0")
    case True
    then show ?thesis by simp
  next
    case False
    with \<open>\<not> 0 < x\<close> have "0 < - x" by simp
    from fl_pos_err[OF this] show ?thesis
      using \<open>0 < - x\<close> by (simp add: fl_minus abs_minus_commute)
  qed
qed

lemma fl_pos: "0 < x \<Longrightarrow> 0 < fl x"
proof -
  assume x: "0 < x"
  have "x / 2 ^ 53 < x" using x by (simp add: field_simps)
  with fl_pos_err[OF x] show ?thesis by linarith
qed

lemma fl_nonneg: "0 \<le> x \<Longrightarrow> 0 \<le> fl x"
  using fl_pos[of x] by (cases "x = 0") simp_all

lemma fl_neg: "x < 0 \<Longrightarrow> fl x < 0"
  using fl_pos[of "- x"] by (simp add: fl_minus)

lemma fl_of_nat:
  assumes "n \<le> 2 ^ 53"
  shows "fl (real n) = real n"
proof (cases "n = 0")
  case True
  then show ?thesis by simp
next
  case False
  define e where "e = ilog2 (real n)"
  have n: "0 < real n" and n1: "1 \<le> real n" using False by simp_all
  have lo: "2 powi e \<le> real n" and hi: "real n < 2 powi (e + 1)"
    using ilog2_bounds[OF n] by (simp_all add: e_def)
  have e0: "0 \<le> e"
  proof (rule ccontr)
    assume "\<not> 0 \<le> e"
    then have "(2::real) powi (e + 1) \<le> 2 powi 0"
      by (intro power_int_increasing) simp_all
    with hi n1 show False by simp
  qed
  have n53: "real n \<le> 2 ^ 53"
    using assms by (metis of_nat_le_iff of_nat_numeral of_nat_power)
  have e53: "e \<le> 53"
  proof (rule ccontr)
    assume "\<not> e \<le> 53"
    then have "(2::real) powi 54 \<le> 2 powi e"
      by (intro power_int_increasing) simp_all
    with lo n53 show False by simp
  qed
  define j where "j = nat e"
  have ej: "e = int j" using e0 by (simp add: j_def)
  have j53: "j \<le> 53" using e53 ej by simp
  show ?thesis
  proof (cases "j \<le> 52")
    case True
    define i where "i = 52 - j"
    have u: "(2::real) powi (e - 52) = 1 / 2 ^ i"
    proof -
      have "e - 52 = - int i" using True by (simp add: ej i_def)
      then show ?thesis by (simp only: power_int_minus_divide power_int_of_nat)
    qed
    have q: "real n / (1 / 2 ^ i) = of_int (int n * 2 ^ i)" by simp
    have r: "rne (real n / (1 / 2 ^ i)) = int n * 2 ^ i"
      by (simp only: q rne_of_int)
    have "fl (real n) = of_int (rne (real n / (1 / 2 ^ i))) * (1 / 2 ^ i)"
      using n by (simp add: fl_def Let_def e_def[symmetric] u)
    also have "\<dots> = real n" by (simp only: r) simp
    finally show ?thesis .
   next
    case False
    then have "j = 53" using j53 by simp
    then have "e = 53" using ej by simp
    with lo n53 have "real n = 2 ^ 53" by simp
    moreover have "ilog2 (2 ^ 53) = 53"
      using \<open>e = 53\<close> calculation by (simp add: e_def)
    ultimately show ?thesis
      by (simp add: fl_def Let_def)
  qed
qed

lemma fl_err_eps: "0 \<le> x \<Longrightarrow> \<bar>fl x - x\<bar> \<le> x * eps"
  using fl_err[of x] by (simp add: eps_def)

lemma fl_lower: "0 \<le> x \<Longrightarrow> x * (1 - eps) \<le> fl x"
proof -
  assume "0 \<le> x"
  from fl_err_eps[OF this] have "x - x * eps \<le> fl x" by linarith
  then show ?thesis by (simp add: right_diff_distrib)
qed

lemma fl_upper: "0 \<le> x \<Longrightarrow> fl x \<le> x * (1 + eps)"
proof -
  assume "0 \<le> x"
  from fl_err_eps[OF this] have "fl x \<le> x + x * eps" by linarith
  then show ?thesis by (simp add: distrib_left)
qed

lemma eps_pos: "0 < eps" "eps < 1"
  by (simp_all add: eps_def)

section \<open>The bounding box is tight\<close>

lemma fold_rows:
  "fold (\<lambda>y. fold (f y) xs) ys s =
   fold (\<lambda>p. f (snd p) (fst p)) (concat (map (\<lambda>y. map (\<lambda>x. (x, y)) xs) ys)) s"
  by (induction ys arbitrary: s) (simp_all add: fold_map comp_def)

lemma set_scan_order: "set (scan_order w h) = {p. fst p < w \<and> snd p < h}"
  by (auto simp: scan_order_def)

lemma distinct_grid:
  "distinct xs \<Longrightarrow> distinct ys \<Longrightarrow>
   distinct (concat (map (\<lambda>y. map (\<lambda>x. (x, y)) xs) ys))"
  by (induction ys) (auto simp: distinct_map inj_on_def)

lemma distinct_scan_order: "distinct (scan_order w h)"
  unfolding scan_order_def by (rule distinct_grid) simp_all

lemma Min_insert_min:
  "finite A \<Longrightarrow> Min (insert (min a b) A) = Min (insert b (insert a A))"
  for a b :: nat
  by (cases "A = {}") (simp_all add: min.assoc min.commute min.left_commute)

lemma Max_insert_max:
  "finite A \<Longrightarrow> Max (insert (max a b) A) = Max (insert b (insert a A))"
  for a b :: nat
  by (cases "A = {}") (simp_all add: max.assoc max.commute max.left_commute)

lemma finite_ink_samples [simp]: "finite (ink_samples data w h)"
  by (simp add: ink_samples_def)

lemma ink_samples_iff:
  "(x, y) \<in> ink_samples data w h \<longleftrightarrow> x < w \<and> y < h \<and> gt50 (channel0 data w x y)"
  by (auto simp: ink_samples_def set_scan_order is_ink_def)


lemma bbox_fold_found:
  "bb_found (fold (bstep data w) ps s) \<longleftrightarrow> bb_found s \<or> (\<exists>p\<in>set ps. is_ink data w p)"
  by (induction ps arbitrary: s) (auto simp: bbox_step_def is_ink_def channel0_def)

lemma bbox_step_ink:
  "is_ink data w p \<Longrightarrow> bstep data w p s =
     s\<lparr>bb_minX := min (fst p) (bb_minX s), bb_maxX := max (fst p) (bb_maxX s),
       bb_minY := min (snd p) (bb_minY s), bb_maxY := max (snd p) (bb_maxY s),
       bb_found := True\<rparr>"
  by (auto simp: bbox_step_def is_ink_def channel0_def min_def max_def)

lemma bbox_step_not_ink: "\<not> is_ink data w p \<Longrightarrow> bstep data w p s = s"
  by (simp add: bbox_step_def is_ink_def channel0_def)

lemma bbox_fold_minX:
  "bb_minX (fold (bstep data w) ps s) =
   Min (insert (bb_minX s) (fst ` set (filter (is_ink data w) ps)))"
proof (induction ps arbitrary: s)
  case Nil
  then show ?case by simp
next
  case (Cons p ps)
  let ?I = "set (filter (is_ink data w) ps)"
  show ?case
  proof (cases "is_ink data w p")
    case True
    have "bb_minX (fold (bstep data w) (p # ps) s) =
          Min (insert (min (fst p) (bb_minX s)) (fst ` ?I))"
      using Cons.IH[of "bstep data w p s"] by (simp add: bbox_step_ink[OF True])
    also have "\<dots> = Min (insert (bb_minX s) (insert (fst p) (fst ` ?I)))"
      by (rule Min_insert_min) simp
    finally show ?thesis by (simp add: True)
  next
    case False
    then show ?thesis
      using Cons.IH[of s] by (simp add: bbox_step_not_ink)
  qed
qed

lemma bbox_fold_maxX:
  "bb_maxX (fold (bstep data w) ps s) =
   Max (insert (bb_maxX s) (fst ` set (filter (is_ink data w) ps)))"
proof (induction ps arbitrary: s)
  case Nil
  then show ?case by simp
next
  case (Cons p ps)
  let ?I = "set (filter (is_ink data w) ps)"
  show ?case
  proof (cases "is_ink data w p")
    case True
    have "bb_maxX (fold (bstep data w) (p # ps) s) =
          Max (insert (max (fst p) (bb_maxX s)) (fst ` ?I))"
      using Cons.IH[of "bstep data w p s"] by (simp add: bbox_step_ink[OF True])
    also have "\<dots> = Max (insert (bb_maxX s) (insert (fst p) (fst ` ?I)))"
      by (rule Max_insert_max) simp
    finally show ?thesis by (simp add: True)
  next
    case False
    then show ?thesis
      using Cons.IH[of s] by (simp add: bbox_step_not_ink)
  qed
qed

lemma bbox_fold_minY:
  "bb_minY (fold (bstep data w) ps s) =
   Min (insert (bb_minY s) (snd ` set (filter (is_ink data w) ps)))"
proof (induction ps arbitrary: s)
  case Nil
  then show ?case by simp
next
  case (Cons p ps)
  let ?I = "set (filter (is_ink data w) ps)"
  show ?case
  proof (cases "is_ink data w p")
    case True
    have "bb_minY (fold (bstep data w) (p # ps) s) =
          Min (insert (min (snd p) (bb_minY s)) (snd ` ?I))"
      using Cons.IH[of "bstep data w p s"] by (simp add: bbox_step_ink[OF True])
    also have "\<dots> = Min (insert (bb_minY s) (insert (snd p) (snd ` ?I)))"
      by (rule Min_insert_min) simp
    finally show ?thesis by (simp add: True)
  next
    case False
    then show ?thesis
      using Cons.IH[of s] by (simp add: bbox_step_not_ink)
  qed
qed

lemma bbox_fold_maxY:
  "bb_maxY (fold (bstep data w) ps s) =
   Max (insert (bb_maxY s) (snd ` set (filter (is_ink data w) ps)))"
proof (induction ps arbitrary: s)
  case Nil
  then show ?case by simp
next
  case (Cons p ps)
  let ?I = "set (filter (is_ink data w) ps)"
  show ?case
  proof (cases "is_ink data w p")
    case True
    have "bb_maxY (fold (bstep data w) (p # ps) s) =
          Max (insert (max (snd p) (bb_maxY s)) (snd ` ?I))"
      using Cons.IH[of "bstep data w p s"] by (simp add: bbox_step_ink[OF True])
    also have "\<dots> = Max (insert (bb_maxY s) (insert (snd p) (snd ` ?I)))"
      by (rule Max_insert_max) simp
    finally show ?thesis by (simp add: True)
  next
    case False
    then show ?thesis
      using Cons.IH[of s] by (simp add: bbox_step_not_ink)
  qed
qed


lemma bbox_scan_alt:
  "bbox_scan data w h = fold (bstep data w) (scan_order w h)
      \<lparr>bb_minX = w, bb_minY = h, bb_maxX = 0, bb_maxY = 0, bb_found = False\<rparr>"
  by (simp add: bbox_scan_def fold_rows scan_order_def)

lemma bbox_scan_found:
  "bb_found (bbox_scan data w h) \<longleftrightarrow> ink_samples data w h \<noteq> {}"
  by (auto simp: bbox_scan_alt bbox_fold_found ink_samples_def)

lemma fst_ink_less: "x \<in> fst ` ink_samples data w h \<Longrightarrow> x < w"
  by (auto simp: ink_samples_def set_scan_order)

lemma snd_ink_less: "y \<in> snd ` ink_samples data w h \<Longrightarrow> y < h"
  by (auto simp: ink_samples_def set_scan_order)

lemma ink_samples_filter:
  "ink_samples data w h = set (filter (is_ink data w) (scan_order w h))"
  by (auto simp: ink_samples_def)

lemma Min_insert_bound:
  "finite A \<Longrightarrow> A \<noteq> {} \<Longrightarrow> \<forall>a\<in>A. a \<le> m \<Longrightarrow> Min (insert m A) = Min A"
  for m :: nat
  by (simp add: min_absorb2)

lemma Max_insert_bound:
  "finite A \<Longrightarrow> A \<noteq> {} \<Longrightarrow> \<forall>a\<in>A. m \<le> a \<Longrightarrow> Max (insert m A) = Max A"
  for m :: nat
  by (simp add: max_absorb2)

lemma bbox_scan_minX:
  assumes "ink_samples data w h \<noteq> {}"
  shows "bb_minX (bbox_scan data w h) = Min (fst ` ink_samples data w h)"
proof -
  have "bb_minX (bbox_scan data w h) = Min (insert w (fst ` ink_samples data w h))"
    by (simp add: bbox_scan_alt bbox_fold_minX ink_samples_filter)
  also have "\<dots> = Min (fst ` ink_samples data w h)"
    using assms fst_ink_less[of _ data w h] by (intro Min_insert_bound) (auto intro: less_imp_le)
  finally show ?thesis .
qed

lemma bbox_scan_minY:
  assumes "ink_samples data w h \<noteq> {}"
  shows "bb_minY (bbox_scan data w h) = Min (snd ` ink_samples data w h)"
proof -
  have "bb_minY (bbox_scan data w h) = Min (insert h (snd ` ink_samples data w h))"
    by (simp add: bbox_scan_alt bbox_fold_minY ink_samples_filter)
  also have "\<dots> = Min (snd ` ink_samples data w h)"
    using assms snd_ink_less[of _ data w h] by (intro Min_insert_bound) (auto intro: less_imp_le)
  finally show ?thesis .
qed

lemma bbox_scan_maxX:
  assumes "ink_samples data w h \<noteq> {}"
  shows "bb_maxX (bbox_scan data w h) = Max (fst ` ink_samples data w h)"
proof -
  have "bb_maxX (bbox_scan data w h) = Max (insert 0 (fst ` ink_samples data w h))"
    by (simp add: bbox_scan_alt bbox_fold_maxX ink_samples_filter)
  also have "\<dots> = Max (fst ` ink_samples data w h)"
    using assms by (intro Max_insert_bound) auto
  finally show ?thesis .
qed

lemma bbox_scan_maxY:
  assumes "ink_samples data w h \<noteq> {}"
  shows "bb_maxY (bbox_scan data w h) = Max (snd ` ink_samples data w h)"
proof -
  have "bb_maxY (bbox_scan data w h) = Max (insert 0 (snd ` ink_samples data w h))"
    by (simp add: bbox_scan_alt bbox_fold_maxY ink_samples_filter)
  also have "\<dots> = Max (snd ` ink_samples data w h)"
    using assms by (intro Max_insert_bound) auto
  finally show ?thesis .
qed

lemma getBoundingBox_scan:
  "getBoundingBox data w h =
     (if ink_samples data w h = {} then None
      else Some \<lparr>box_minX = Min (fst ` ink_samples data w h),
                 box_minY = Min (snd ` ink_samples data w h),
                 box_w = int (Max (fst ` ink_samples data w h)) - int (Min (fst ` ink_samples data w h)) + 1,
                 box_h = int (Max (snd ` ink_samples data w h)) - int (Min (snd ` ink_samples data w h)) + 1\<rparr>)"
  unfolding getBoundingBox_def bbox_scan_def[symmetric] Let_def
  by (simp add: bbox_scan_found bbox_scan_minX bbox_scan_minY bbox_scan_maxX bbox_scan_maxY)


lemma ink_samplesI:
  "x < w \<Longrightarrow> y < h \<Longrightarrow> gt50 (channel0 data w x y) \<Longrightarrow> (x, y) \<in> ink_samples data w h"
  by (simp add: ink_samples_iff)

lemma ink_samples_empty_iff:
  "ink_samples data w h = {} \<longleftrightarrow> (\<forall>x<w. \<forall>y<h. \<not> gt50 (channel0 data w x y))"
proof
  assume e: "ink_samples data w h = {}"
  show "\<forall>x<w. \<forall>y<h. \<not> gt50 (channel0 data w x y)"
  proof (intro allI impI notI)
    fix x y assume "x < w" "y < h" "gt50 (channel0 data w x y)"
    then have "(x, y) \<in> ink_samples data w h" by (rule ink_samplesI)
    with e show False by simp
  qed
next
  assume r: "\<forall>x<w. \<forall>y<h. \<not> gt50 (channel0 data w x y)"
  show "ink_samples data w h = {}"
  proof (rule ccontr)
    assume "ink_samples data w h \<noteq> {}"
    then obtain x y where "(x, y) \<in> ink_samples data w h" by auto
    then have "x < w \<and> y < h \<and> gt50 (channel0 data w x y)" by (simp only: ink_samples_iff)
    with r show False by blast
  qed
qed

lemma getBoundingBox_None_iff:
  "getBoundingBox data w h = None \<longleftrightarrow> (\<forall>x<w. \<forall>y<h. \<not> gt50 (channel0 data w x y))"
  by (simp add: getBoundingBox_scan ink_samples_empty_iff)

lemma getBoundingBox_Some_tight:
  assumes "getBoundingBox data w h = Some b"
  shows "\<forall>x y. x < w \<and> y < h \<and> gt50 (channel0 data w x y) \<longrightarrow>
           box_minX b \<le> x \<and> int x \<le> int (box_minX b) + box_w b - 1 \<and>
           box_minY b \<le> y \<and> int y \<le> int (box_minY b) + box_h b - 1"
    and "\<exists>y<h. box_minX b < w \<and> gt50 (channel0 data w (box_minX b) y)"
    and "\<exists>x<w. \<exists>y<h. int x = int (box_minX b) + box_w b - 1 \<and> gt50 (channel0 data w x y)"
    and "\<exists>x<w. box_minY b < h \<and> gt50 (channel0 data w x (box_minY b))"
    and "\<exists>x<w. \<exists>y<h. int y = int (box_minY b) + box_h b - 1 \<and> gt50 (channel0 data w x y)"
proof -
  let ?I = "ink_samples data w h"
  have ne: "?I \<noteq> {}"
    using assms by (cases "?I = {}") (simp_all add: getBoundingBox_scan)
  then have "getBoundingBox data w h = Some \<lparr>box_minX = Min (fst ` ?I), box_minY = Min (snd ` ?I),
          box_w = int (Max (fst ` ?I)) - int (Min (fst ` ?I)) + 1,
          box_h = int (Max (snd ` ?I)) - int (Min (snd ` ?I)) + 1\<rparr>"
    by (simp only: getBoundingBox_scan if_False)
  with assms have bx: "box_minX b = Min (fst ` ?I)" and by': "box_minY b = Min (snd ` ?I)"
    and bw: "box_w b = int (Max (fst ` ?I)) - int (Min (fst ` ?I)) + 1"
    and bh: "box_h b = int (Max (snd ` ?I)) - int (Min (snd ` ?I)) + 1"
    by auto
  note b = bx by' bw bh
  have fin: "finite (fst ` ?I)" "finite (snd ` ?I)" "fst ` ?I \<noteq> {}" "snd ` ?I \<noteq> {}"
    using ne by simp_all
  show "\<forall>x y. x < w \<and> y < h \<and> gt50 (channel0 data w x y) \<longrightarrow>
           box_minX b \<le> x \<and> int x \<le> int (box_minX b) + box_w b - 1 \<and>
           box_minY b \<le> y \<and> int y \<le> int (box_minY b) + box_h b - 1"
  proof (intro allI impI)
    fix x y assume "x < w \<and> y < h \<and> gt50 (channel0 data w x y)"
    then have "(x, y) \<in> ?I" by (simp add: ink_samples_iff)
    then have "x \<in> fst ` ?I" "y \<in> snd ` ?I" by force+
    then have "Min (fst ` ?I) \<le> x" "x \<le> Max (fst ` ?I)" "Min (snd ` ?I) \<le> y" "y \<le> Max (snd ` ?I)"
      using fin by simp_all
    then show "box_minX b \<le> x \<and> int x \<le> int (box_minX b) + box_w b - 1 \<and>
           box_minY b \<le> y \<and> int y \<le> int (box_minY b) + box_h b - 1"
      by (simp add: b)
  qed
  have "Min (fst ` ?I) \<in> fst ` ?I" using fin by (intro Min_in)
  then obtain y where "(Min (fst ` ?I), y) \<in> ?I" by force
  then have "y < h \<and> box_minX b < w \<and> gt50 (channel0 data w (box_minX b) y)"
    by (simp add: bx ink_samples_iff)
  then show "\<exists>y<h. box_minX b < w \<and> gt50 (channel0 data w (box_minX b) y)"
    by blast
  have "Max (fst ` ?I) \<in> fst ` ?I" using fin by (intro Max_in)
  then obtain y where "(Max (fst ` ?I), y) \<in> ?I" by force
  then have "Max (fst ` ?I) < w \<and> y < h \<and>
      int (Max (fst ` ?I)) = int (box_minX b) + box_w b - 1 \<and> gt50 (channel0 data w (Max (fst ` ?I)) y)"
    by (simp add: bx bw ink_samples_iff)
  then show "\<exists>x<w. \<exists>y<h. int x = int (box_minX b) + box_w b - 1 \<and> gt50 (channel0 data w x y)"
    by blast
  have "Min (snd ` ?I) \<in> snd ` ?I" using fin by (intro Min_in)
  then obtain x where "(x, Min (snd ` ?I)) \<in> ?I" by force
  then have "x < w \<and> box_minY b < h \<and> gt50 (channel0 data w x (box_minY b))"
    by (simp add: by' ink_samples_iff)
  then show "\<exists>x<w. box_minY b < h \<and> gt50 (channel0 data w x (box_minY b))"
    by blast
  have "Max (snd ` ?I) \<in> snd ` ?I" using fin by (intro Max_in)
  then obtain x where "(x, Max (snd ` ?I)) \<in> ?I" by force
  then have "x < w \<and> Max (snd ` ?I) < h \<and>
      int (Max (snd ` ?I)) = int (box_minY b) + box_h b - 1 \<and> gt50 (channel0 data w x (Max (snd ` ?I)))"
    by (simp add: by' bh ink_samples_iff)
  then show "\<exists>x<w. \<exists>y<h. int y = int (box_minY b) + box_h b - 1 \<and> gt50 (channel0 data w x y)"
    by blast
qed

text \<open>A box that was found has positive width and height, so the scale divides by at least 1.\<close>

lemma getBoundingBox_dims_pos:
  assumes "getBoundingBox data w h = Some b"
  shows "1 \<le> box_w b \<and> 1 \<le> box_h b"
proof -
  note t = getBoundingBox_Some_tight[OF assms]
  from t(2) obtain y where y: "y < h" "box_minX b < w" "gt50 (channel0 data w (box_minX b) y)"
    by blast
  with t(1) have "int (box_minX b) \<le> int (box_minX b) + box_w b - 1 \<and>
      int y \<le> int (box_minY b) + box_h b - 1 \<and> box_minY b \<le> y"
    by blast
  then show ?thesis by linarith
qed

lemma getBoundingBox_single:
  assumes "x < w" "y < h" "gt50 (channel0 data w x y)"
    and "\<forall>x'<w. \<forall>y'<h. gt50 (channel0 data w x' y') \<longrightarrow> x' = x \<and> y' = y"
  shows "getBoundingBox data w h = Some \<lparr>box_minX = x, box_minY = y, box_w = 1, box_h = 1\<rparr>"
proof -
  have "ink_samples data w h = {(x, y)}"
  proof (intro set_eqI iffI)
    fix p assume p: "p \<in> ink_samples data w h"
    obtain a b where ab: "p = (a, b)" by (cases p)
    with p have "a < w \<and> b < h \<and> gt50 (channel0 data w a b)"
      by (simp only: ink_samples_iff)
    with assms(4) have "a = x \<and> b = y" by blast
    then show "p \<in> {(x, y)}" by (simp add: ab)
  next
    fix p assume "p \<in> {(x, y)}"
    then have "p = (x, y)" by simp
    then show "p \<in> ink_samples data w h"
      using assms(1-3) by (simp only: ink_samples_iff)
  qed
  then show ?thesis by (simp add: getBoundingBox_scan)
qed

text \<open>
  Claim C1. \<^verbatim>\<open>getBoundingBox\<close> returns \<^verbatim>\<open>null\<close> exactly when no sample of the raster has a
  first channel above 50. Otherwise the box it returns is the tight inclusive box of the
  ink samples: every ink sample lies between \<open>minX\<close> and \<open>minX + w - 1\<close> and between
  \<open>minY\<close> and \<open>minY + h - 1\<close>, and each of these four bounds is the coordinate of some
  ink sample (so \<open>w = maxX - minX + 1\<close> and \<open>h = maxY - minY + 1\<close>). A raster whose only
  ink sample is at \<open>(x, y)\<close> gives the box at \<open>(x, y)\<close> of width and height 1.
\<close>

theorem getBoundingBox_tight_box:
  "(getBoundingBox data w h = None \<longleftrightarrow> (\<forall>x<w. \<forall>y<h. \<not> gt50 (channel0 data w x y))) \<and>
   (\<forall>b. getBoundingBox data w h = Some b \<longrightarrow>
      (\<forall>x y. x < w \<and> y < h \<and> gt50 (channel0 data w x y) \<longrightarrow>
           box_minX b \<le> x \<and> int x \<le> int (box_minX b) + box_w b - 1 \<and>
           box_minY b \<le> y \<and> int y \<le> int (box_minY b) + box_h b - 1) \<and>
      (\<exists>y<h. box_minX b < w \<and> gt50 (channel0 data w (box_minX b) y)) \<and>
      (\<exists>x<w. \<exists>y<h. int x = int (box_minX b) + box_w b - 1 \<and> gt50 (channel0 data w x y)) \<and>
      (\<exists>x<w. box_minY b < h \<and> gt50 (channel0 data w x (box_minY b))) \<and>
      (\<exists>x<w. \<exists>y<h. int y = int (box_minY b) + box_h b - 1 \<and> gt50 (channel0 data w x y))) \<and>
   (\<forall>x y. x < w \<and> y < h \<and> gt50 (channel0 data w x y) \<and>
      (\<forall>x'<w. \<forall>y'<h. gt50 (channel0 data w x' y') \<longrightarrow> x' = x \<and> y' = y) \<longrightarrow>
      getBoundingBox data w h = Some \<lparr>box_minX = x, box_minY = y, box_w = 1, box_h = 1\<rparr>)"
proof (intro conjI)
  show "getBoundingBox data w h = None \<longleftrightarrow> (\<forall>x<w. \<forall>y<h. \<not> gt50 (channel0 data w x y))"
    by (rule getBoundingBox_None_iff)
next
  show "\<forall>b. getBoundingBox data w h = Some b \<longrightarrow>
      (\<forall>x y. x < w \<and> y < h \<and> gt50 (channel0 data w x y) \<longrightarrow>
           box_minX b \<le> x \<and> int x \<le> int (box_minX b) + box_w b - 1 \<and>
           box_minY b \<le> y \<and> int y \<le> int (box_minY b) + box_h b - 1) \<and>
      (\<exists>y<h. box_minX b < w \<and> gt50 (channel0 data w (box_minX b) y)) \<and>
      (\<exists>x<w. \<exists>y<h. int x = int (box_minX b) + box_w b - 1 \<and> gt50 (channel0 data w x y)) \<and>
      (\<exists>x<w. box_minY b < h \<and> gt50 (channel0 data w x (box_minY b))) \<and>
      (\<exists>x<w. \<exists>y<h. int y = int (box_minY b) + box_h b - 1 \<and> gt50 (channel0 data w x y))"
  proof (intro allI impI)
    fix b assume s: "getBoundingBox data w h = Some b"
    note t = getBoundingBox_Some_tight[OF s]
    show "(\<forall>x y. x < w \<and> y < h \<and> gt50 (channel0 data w x y) \<longrightarrow>
           box_minX b \<le> x \<and> int x \<le> int (box_minX b) + box_w b - 1 \<and>
           box_minY b \<le> y \<and> int y \<le> int (box_minY b) + box_h b - 1) \<and>
      (\<exists>y<h. box_minX b < w \<and> gt50 (channel0 data w (box_minX b) y)) \<and>
      (\<exists>x<w. \<exists>y<h. int x = int (box_minX b) + box_w b - 1 \<and> gt50 (channel0 data w x y)) \<and>
      (\<exists>x<w. box_minY b < h \<and> gt50 (channel0 data w x (box_minY b))) \<and>
      (\<exists>x<w. \<exists>y<h. int y = int (box_minY b) + box_h b - 1 \<and> gt50 (channel0 data w x y))"
      by (intro conjI) (rule t)+
  qed
next
  show "\<forall>x y. x < w \<and> y < h \<and> gt50 (channel0 data w x y) \<and>
      (\<forall>x'<w. \<forall>y'<h. gt50 (channel0 data w x' y') \<longrightarrow> x' = x \<and> y' = y) \<longrightarrow>
      getBoundingBox data w h = Some \<lparr>box_minX = x, box_minY = y, box_w = 1, box_h = 1\<rparr>"
  proof (intro allI impI)
    fix x y
    assume a: "x < w \<and> y < h \<and> gt50 (channel0 data w x y) \<and>
      (\<forall>x'<w. \<forall>y'<h. gt50 (channel0 data w x' y') \<longrightarrow> x' = x \<and> y' = y)"
    show "getBoundingBox data w h = Some \<lparr>box_minX = x, box_minY = y, box_w = 1, box_h = 1\<rparr>"
      by (rule getBoundingBox_single) (use a in blast)+
  qed
qed


theorem getBoundingBox_tight_box_witness:
  "getBoundingBox one_dot 2 2 = Some \<lparr>box_minX = 1, box_minY = 0, box_w = 1, box_h = 1\<rparr>"
proof -
  have ch: "channel0 one_dot 2 0 0 = Some 0" "channel0 one_dot 2 (Suc 0) 0 = Some 200"
    "channel0 one_dot 2 0 (Suc 0) = Some 0" "channel0 one_dot 2 (Suc 0) (Suc 0) = Some 50"
    by (simp_all add: channel0_def js_index_def one_dot_def)
  have two: "\<And>n::nat. n < 2 \<longleftrightarrow> n = 0 \<or> n = Suc 0" by auto
  have "(1::nat) < 2 \<and> (0::nat) < 2 \<and> gt50 (channel0 one_dot 2 1 0) \<and>
      (\<forall>x'<2. \<forall>y'<2. gt50 (channel0 one_dot 2 x' y') \<longrightarrow> x' = 1 \<and> y' = 0)"
    by (auto simp: two ch gt50_def)
  with getBoundingBox_tight_box[of one_dot 2 2] show ?thesis by blast
qed

section \<open>The centre of mass is weighted by intensity\<close>

lemma com_step_ink:
  "is_ink data w p \<Longrightarrow> cstep data w p s =
     s\<lparr>cm_sumX := js_add (cm_sumX s) (js_mul (real (fst p)) (real (value_at data w p))),
       cm_sumY := js_add (cm_sumY s) (js_mul (real (snd p)) (real (value_at data w p))),
       cm_mass := js_add (cm_mass s) (real (value_at data w p))\<rparr>"
  by (auto simp: com_step_def is_ink_def channel0_def value_at_def gt50_def split: option.splits)

lemma com_step_not_ink: "\<not> is_ink data w p \<Longrightarrow> cstep data w p s = s"
  by (auto simp: com_step_def is_ink_def channel0_def gt50_def split: option.splits)

lemma js_add_nat: "a + b \<le> 2 ^ 53 \<Longrightarrow> js_add (real a) (real b) = real (a + b)"
  using fl_of_nat[of "a + b"] by (simp add: js_add_def)

lemma js_mul_nat: "a * b \<le> 2 ^ 53 \<Longrightarrow> js_mul (real a) (real b) = real (a * b)"
  using fl_of_nat[of "a * b"] by (simp add: js_mul_def)

lemma com_fold_exact:
  assumes "a + sum_list (map (\<lambda>p. fst p * value_at data w p) (filter (is_ink data w) ps)) \<le> 2 ^ 53"
    and "b + sum_list (map (\<lambda>p. snd p * value_at data w p) (filter (is_ink data w) ps)) \<le> 2 ^ 53"
    and "m + sum_list (map (value_at data w) (filter (is_ink data w) ps)) \<le> 2 ^ 53"
  shows "fold (cstep data w) ps \<lparr>cm_sumX = real a, cm_sumY = real b, cm_mass = real m\<rparr> =
     \<lparr>cm_sumX = real (a + sum_list (map (\<lambda>p. fst p * value_at data w p) (filter (is_ink data w) ps))),
      cm_sumY = real (b + sum_list (map (\<lambda>p. snd p * value_at data w p) (filter (is_ink data w) ps))),
      cm_mass = real (m + sum_list (map (value_at data w) (filter (is_ink data w) ps)))\<rparr>"
  using assms
proof (induction ps arbitrary: a b m)
  case Nil
  then show ?case by simp
next
  case (Cons p ps)
  show ?case
  proof (cases "is_ink data w p")
    case False
    then show ?thesis using Cons by (simp add: com_step_not_ink)
  next
    case True
    let ?v = "value_at data w p"
    from Cons.prems True have le: "a + fst p * ?v \<le> 2 ^ 53" "b + snd p * ?v \<le> 2 ^ 53"
      "m + ?v \<le> 2 ^ 53" "fst p * ?v \<le> 2 ^ 53" "snd p * ?v \<le> 2 ^ 53"
      by simp_all
    have step: "cstep data w p \<lparr>cm_sumX = real a, cm_sumY = real b, cm_mass = real m\<rparr> =
        \<lparr>cm_sumX = real (a + fst p * ?v), cm_sumY = real (b + snd p * ?v), cm_mass = real (m + ?v)\<rparr>"
      using le by (simp add: com_step_ink[OF True] js_mul_nat js_add_nat del: of_nat_add of_nat_mult)
    show ?thesis
      using Cons.IH[of "a + fst p * ?v" "b + snd p * ?v" "m + ?v"] Cons.prems True
      by (simp add: step add.assoc del: of_nat_add of_nat_mult)
  qed
qed


lemma com_scan_alt:
  "com_scan data w h = fold (cstep data w) (scan_order w h) \<lparr>cm_sumX = 0, cm_sumY = 0, cm_mass = 0\<rparr>"
  by (simp add: com_scan_def fold_rows scan_order_def)

lemma sum_ink_list:
  "(\<Sum>p\<in>ink_samples data w h. f p) = sum_list (map f (filter (is_ink data w) (scan_order w h)))"
  for f :: "nat \<times> nat \<Rightarrow> nat"
  unfolding ink_samples_def
  by (rule sum.distinct_set_conv_list) (simp add: distinct_scan_order)

lemma com_scan_exact:
  assumes "moment_x data w h \<le> 2 ^ 53" "moment_y data w h \<le> 2 ^ 53" "mass_of data w h \<le> 2 ^ 53"
  shows "com_scan data w h =
     \<lparr>cm_sumX = real (moment_x data w h), cm_sumY = real (moment_y data w h),
      cm_mass = real (mass_of data w h)\<rparr>"
proof -
  have "fold (cstep data w) (scan_order w h) \<lparr>cm_sumX = real 0, cm_sumY = real 0, cm_mass = real 0\<rparr> =
     \<lparr>cm_sumX = real (0 + moment_x data w h), cm_sumY = real (0 + moment_y data w h),
      cm_mass = real (0 + mass_of data w h)\<rparr>"
    unfolding moment_x_def moment_y_def mass_of_def sum_ink_list
    by (rule com_fold_exact)
       (use assms in \<open>simp_all add: moment_x_def moment_y_def mass_of_def sum_ink_list\<close>)
  then show ?thesis by (simp add: com_scan_alt)
qed

lemma value_at_ink: "p \<in> ink_samples data w h \<Longrightarrow> 50 < value_at data w p"
  by (auto simp: ink_samples_def is_ink_def value_at_def gt50_def split: option.splits)

lemma mass_of_zero_iff: "mass_of data w h = 0 \<longleftrightarrow> ink_samples data w h = {}"
proof
  assume z: "mass_of data w h = 0"
  show "ink_samples data w h = {}"
  proof (rule ccontr)
    assume "ink_samples data w h \<noteq> {}"
    then obtain p where p: "p \<in> ink_samples data w h" by auto
    from z have "value_at data w p = 0"
      using p by (simp add: mass_of_def)
    with value_at_ink[OF p] show False by simp
  qed
next
  assume "ink_samples data w h = {}"
  then show "mass_of data w h = 0" by (simp add: mass_of_def)
qed

lemma getCenterOfMass_exact:
  assumes "moment_x data w h \<le> 2 ^ 53" "moment_y data w h \<le> 2 ^ 53" "mass_of data w h \<le> 2 ^ 53"
  shows "getCenterOfMass data w h =
     (if mass_of data w h = 0 then None
      else Some \<lparr>com_x = js_div (real (moment_x data w h)) (real (mass_of data w h)),
                 com_y = js_div (real (moment_y data w h)) (real (mass_of data w h))\<rparr>)"
  unfolding getCenterOfMass_def com_scan_def[symmetric] Let_def
  by (simp add: com_scan_exact[OF assms])

text \<open>
  Claim C2. After the scan of \<^verbatim>\<open>getCenterOfMass\<close> the accumulators \<^verbatim>\<open>sumX\<close>, \<^verbatim>\<open>sumY\<close> and
  \<^verbatim>\<open>mass\<close> hold the sums of \<open>x * value\<close>, \<open>y * value\<close> and \<open>value\<close> over exactly the samples
  whose first channel exceeds 50; the function returns \<^verbatim>\<open>null\<close> exactly when \<^verbatim>\<open>mass\<close> is 0
  (that is, when there is no ink), and otherwise the quotients \<^verbatim>\<open>sumX/mass\<close> and
  \<^verbatim>\<open>sumY/mass\<close>: the centroid weighted by intensity. The three sums are assumed to be at
  most \<open>2^53\<close>, so that binary64 holds them exactly; every canvas a browser allows is far
  below that.
\<close>

theorem getCenterOfMass_weighted_centroid:
  assumes "moment_x data w h \<le> 2 ^ 53" "moment_y data w h \<le> 2 ^ 53" "mass_of data w h \<le> 2 ^ 53"
  shows "cm_sumX (com_scan data w h) = real (\<Sum>p\<in>ink_samples data w h. fst p * value_at data w p) \<and>
     cm_sumY (com_scan data w h) = real (\<Sum>p\<in>ink_samples data w h. snd p * value_at data w p) \<and>
     cm_mass (com_scan data w h) = real (\<Sum>p\<in>ink_samples data w h. value_at data w p) \<and>
     (getCenterOfMass data w h = None \<longleftrightarrow> cm_mass (com_scan data w h) = 0) \<and>
     (getCenterOfMass data w h = None \<longleftrightarrow> (\<forall>x<w. \<forall>y<h. \<not> gt50 (channel0 data w x y))) \<and>
     (cm_mass (com_scan data w h) \<noteq> 0 \<longrightarrow>
        getCenterOfMass data w h =
          Some \<lparr>com_x = js_div (cm_sumX (com_scan data w h)) (cm_mass (com_scan data w h)),
                 com_y = js_div (cm_sumY (com_scan data w h)) (cm_mass (com_scan data w h))\<rparr>)"
proof -
  note sc = com_scan_exact[OF assms]
  have 1: "cm_sumX (com_scan data w h) = real (moment_x data w h)"
    and 2: "cm_sumY (com_scan data w h) = real (moment_y data w h)"
    and 3: "cm_mass (com_scan data w h) = real (mass_of data w h)"
    by (simp_all add: sc)
  have 4: "getCenterOfMass data w h = None \<longleftrightarrow> cm_mass (com_scan data w h) = 0"
    unfolding getCenterOfMass_def com_scan_def[symmetric] Let_def by simp
  have 5: "getCenterOfMass data w h = None \<longleftrightarrow> (\<forall>x<w. \<forall>y<h. \<not> gt50 (channel0 data w x y))"
    unfolding 4 3 by (simp add: mass_of_zero_iff ink_samples_empty_iff)
  have 6: "cm_mass (com_scan data w h) \<noteq> 0 \<longrightarrow>
        getCenterOfMass data w h =
          Some \<lparr>com_x = js_div (cm_sumX (com_scan data w h)) (cm_mass (com_scan data w h)),
                 com_y = js_div (cm_sumY (com_scan data w h)) (cm_mass (com_scan data w h))\<rparr>"
    unfolding getCenterOfMass_def com_scan_def[symmetric] Let_def by simp
  from 1 2 3 4 5 6 show ?thesis
    unfolding moment_x_def moment_y_def mass_of_def by (intro conjI)
qed

lemma sums_two_tone:
  "moment_x two_tone 2 1 = 200" "moment_y two_tone 2 1 = 0" "mass_of two_tone 2 1 = 300"
  by code_simp+

text \<open>
  On the raster \<open>two_tone\<close> the centroid is at \<open>x = 200/300\<close> (rounded), not at the
  midpoint \<open>1/2\<close> of the two ink samples that a binary mask would give.
\<close>

theorem getCenterOfMass_weighted_centroid_witness:
  "getCenterOfMass two_tone 2 1 = Some \<lparr>com_x = js_div 200 300, com_y = js_div 0 300\<rparr> \<and>
   js_div 200 300 \<noteq> 1 / 2"
proof -
  have b: "moment_x two_tone 2 1 \<le> 2 ^ 53" "moment_y two_tone 2 1 \<le> 2 ^ 53"
    "mass_of two_tone 2 1 \<le> 2 ^ 53"
    unfolding sums_two_tone by simp_all
  note t = getCenterOfMass_weighted_centroid[OF b]
  have s: "(\<Sum>p\<in>ink_samples two_tone 2 1. fst p * value_at two_tone 2 p) = 200"
    "(\<Sum>p\<in>ink_samples two_tone 2 1. snd p * value_at two_tone 2 p) = 0"
    "(\<Sum>p\<in>ink_samples two_tone 2 1. value_at two_tone 2 p) = 300"
    using sums_two_tone unfolding moment_x_def moment_y_def mass_of_def by blast+
  have "js_div 200 300 \<noteq> 1 / 2" unfolding js_div_def by code_simp
  with t show ?thesis unfolding s by simp
qed

section \<open>Properties of the canonical frame\<close>

lemma read_back_eq:
  "read_back d i acc = acc @ map (\<lambda>k. boost (d ! (i + 4 * k))) [0..<(length d - i + 3) div 4]"
proof (induction d i acc rule: read_back.induct)
  case (1 d i acc)
  show ?case
  proof (cases "i < length d")
    case False
    then show ?thesis by (simp add: read_back.simps[of d i])
  next
    case True
    define n where "n = (length d - (i + 4) + 3) div 4"
    have n: "(length d - i + 3) div 4 = Suc n"
      using True unfolding n_def by (cases "4 \<le> length d - i") (auto simp: div_eq_0_iff le_div_geq)
    have "read_back d i acc = read_back d (i + 4) (acc @ [boost (d ! i)])"
      using True by (subst read_back.simps) simp
    also have "\<dots> = (acc @ [boost (d ! i)]) @ map (\<lambda>k. boost (d ! (i + 4 + 4 * k))) [0..<n]"
      unfolding n_def by (rule 1[OF True])
    also have "\<dots> = acc @ map (\<lambda>k. boost (d ! (i + 4 * k))) [0..<Suc n]"
      by (simp add: map_upt_Suc add.assoc del: upt_Suc)
    finally show ?thesis by (simp only: n)
  qed
qed

lemma read_back_frame:
  assumes "length d = 4 * 28 * 28"
  shows "read_back d 0 [] = map (\<lambda>k. boost (d ! (4 * k))) [0..<784]"
proof -
  have k: "(length d - 0 + 3) div 4 = 784" using assms by simp
  have "read_back d 0 [] = map (\<lambda>k. boost (d ! (0 + 4 * k))) [0..<(length d - 0 + 3) div 4]"
    using read_back_eq[of d 0 "[]"] by (simp only: append_Nil)
  then show ?thesis by (simp only: k add_0)
qed

lemma boost_range: "0 \<le> boost raw \<and> boost raw \<le> 1"
proof -
  have "0 \<le> real raw / 255" by simp
  then have "0 \<le> js_div (real raw) 255" unfolding js_div_def by (rule fl_nonneg)
  moreover have "(0::real) \<le> 13 / 10" by simp
  then have "0 \<le> fl (13 / 10)" by (rule fl_nonneg)
  ultimately have "0 \<le> js_div (real raw) 255 * fl (13 / 10)" by (rule mult_nonneg_nonneg)
  then have "0 \<le> js_mul (js_div (real raw) 255) (fl (13 / 10))"
    unfolding js_mul_def by (rule fl_nonneg)
  then show ?thesis by (simp add: boost_def)
qed

lemma extract_fst:
  "fst (extractInputTensor api st sx sy) =
     (case getBoundingBox (rawData api st) HIDDEN_SIZE HIDDEN_SIZE of
        None \<Rightarrow> None
      | Some b \<Rightarrow> Some (read_back (frame_bytes api st b (sx, sy)) 0 []))"
  by (simp add: extractInputTensor_def rawData_def frame_bytes_def Let_def split: option.splits)

lemma extract_hidden:
  "hiddenCanvas (snd (extractInputTensor api st sx sy)) = hiddenCanvas st"
  by (simp add: extractInputTensor_def Let_def split: option.splits)

lemma extract_log:
  "bbox_log (snd (extractInputTensor api st sx sy)) =
     bbox_log st @ [getBoundingBox (rawData api st) HIDDEN_SIZE HIDDEN_SIZE]"
  by (simp add: extractInputTensor_def rawData_def Let_def split: option.splits)

lemma extract_other:
  "model (snd (extractInputTensor api st sx sy)) = model st"
  "live_tensors (snd (extractInputTensor api st sx sy)) = live_tensors st"
  "next_tensor (snd (extractInputTensor api st sx sy)) = next_tensor st"
  by (simp_all add: extractInputTensor_def Let_def split: option.splits)

lemma rawData_cong: "hiddenCanvas st' = hiddenCanvas st \<Longrightarrow> rawData api st' = rawData api st"
  by (simp add: rawData_def)

lemma frame_bytes_cong:
  "hiddenCanvas st' = hiddenCanvas st \<Longrightarrow> frame_bytes api st' b s = frame_bytes api st b s"
  by (simp add: frame_bytes_def)

lemma extract_fst_cong:
  assumes "hiddenCanvas st' = hiddenCanvas st"
  shows "fst (extractInputTensor api st' sx sy) = fst (extractInputTensor api st sx sy)"
proof -
  have "rawData api st' = rawData api st"
    using assms by (rule rawData_cong)
  moreover have "\<And>b s. frame_bytes api st' b s = frame_bytes api st b s"
    using assms by (rule frame_bytes_cong)
  ultimately show ?thesis by (simp only: extract_fst)
qed

text \<open>
  Claim C3. \<^verbatim>\<open>extractInputTensor\<close> returns \<^verbatim>\<open>null\<close> exactly when the bounding box of the
  hidden canvas is \<^verbatim>\<open>null\<close>. When there is a box, and the browser hands back the
  \<open>4 * 28 * 28\<close> bytes of the rendered 28 by 28 frame, the result has exactly 784 entries,
  entry \<open>i\<close> is \<^verbatim>\<open>Math.min(1.0, (raw / 255.0) * 1.3)\<close> for the first channel \<open>raw\<close> of
  sample \<open>i\<close> of that frame (the division comes first, then the boost), and every entry
  lies between 0 and 1.
\<close>

theorem extractInputTensor_frame:
  "(fst (extractInputTensor api st shiftX shiftY) = None \<longleftrightarrow>
      getBoundingBox (rawData api st) HIDDEN_SIZE HIDDEN_SIZE = None) \<and>
   (\<forall>b. getBoundingBox (rawData api st) HIDDEN_SIZE HIDDEN_SIZE = Some b \<and>
        length (frame_bytes api st b (shiftX, shiftY)) = 4 * 28 * 28 \<longrightarrow>
      (\<exists>input. fst (extractInputTensor api st shiftX shiftY) = Some input \<and>
         length input = 784 \<and>
         (\<forall>i<784. input ! i =
             min 1 (js_mul (js_div (real (frame_bytes api st b (shiftX, shiftY) ! (4 * i))) 255)
                      (fl (13 / 10))) \<and>
            0 \<le> input ! i \<and> input ! i \<le> 1)))"
proof (intro conjI allI impI)
  show "fst (extractInputTensor api st shiftX shiftY) = None \<longleftrightarrow>
      getBoundingBox (rawData api st) HIDDEN_SIZE HIDDEN_SIZE = None"
    by (simp add: extract_fst split: option.splits)
next
  fix b
  assume a: "getBoundingBox (rawData api st) HIDDEN_SIZE HIDDEN_SIZE = Some b \<and>
        length (frame_bytes api st b (shiftX, shiftY)) = 4 * 28 * 28"
  define d where "d = frame_bytes api st b (shiftX, shiftY)"
  define v where "v = map (\<lambda>k. boost (d ! (4 * k))) [0..<784]"
  from a have bb: "getBoundingBox (rawData api st) HIDDEN_SIZE HIDDEN_SIZE = Some b"
    and l: "length d = 4 * 28 * 28"
    unfolding d_def by blast+
  have "fst (extractInputTensor api st shiftX shiftY) = Some (read_back d 0 [])"
    by (simp only: extract_fst bb option.case d_def)
  then have e: "fst (extractInputTensor api st shiftX shiftY) = Some v"
    by (simp only: read_back_frame[OF l] v_def)
  have len: "length v = 784" by (simp add: v_def del: upt_rec_numeral)
  have el: "\<forall>i<784. v ! i = min 1 (js_mul (js_div (real (d ! (4 * i))) 255) (fl (13 / 10))) \<and>
            0 \<le> v ! i \<and> v ! i \<le> 1"
  proof (intro allI impI)
    fix i :: nat assume "i < 784"
    then have vi: "v ! i = boost (d ! (4 * i))" by (simp add: v_def del: upt_rec_numeral)
    show "v ! i = min 1 (js_mul (js_div (real (d ! (4 * i))) 255) (fl (13 / 10))) \<and>
            0 \<le> v ! i \<and> v ! i \<le> 1"
      unfolding vi using boost_range[of "d ! (4 * i)"] by (simp only: boost_def)
  qed
  from e len el have "fst (extractInputTensor api st shiftX shiftY) = Some v \<and>
         length v = 784 \<and>
         (\<forall>i<784. v ! i = min 1 (js_mul (js_div (real (d ! (4 * i))) 255) (fl (13 / 10))) \<and>
            0 \<le> v ! i \<and> v ! i \<le> 1)"
    by (intro conjI)
  then show "\<exists>input. fst (extractInputTensor api st shiftX shiftY) = Some input \<and>
         length input = 784 \<and>
         (\<forall>i<784. input ! i =
             min 1 (js_mul (js_div (real (frame_bytes api st b (shiftX, shiftY) ! (4 * i))) 255)
                      (fl (13 / 10))) \<and>
            0 \<le> input ! i \<and> input ! i \<le> 1)"
    unfolding d_def by (rule exI)
qed

text \<open>
  Claim C8. A second call of \<^verbatim>\<open>extractInputTensor\<close> with shift \<open>(0, 0)\<close>, made in the
  state the first call left behind (the preview canvas redrawn, the hidden canvas
  untouched), returns the same vector as the first. Rendering is a function of the canvas
  contents here, as the canvas interface is.
\<close>

theorem extractInputTensor_repeatable:
  "fst (extractInputTensor api (snd (extractInputTensor api st 0 0)) 0 0) =
   fst (extractInputTensor api st 0 0)"
  by (rule extract_fst_cong) (rule extract_hidden)


lemma white_raw:
  "rawData list_api (white_page m) = replicate (4 * HIDDEN_SIZE * HIDDEN_SIZE) 255"
  by (simp add: rawData_def list_api_def white_page_def)

lemma white_has_box:
  "\<exists>b. getBoundingBox (rawData list_api (white_page m)) HIDDEN_SIZE HIDDEN_SIZE = Some b"
proof -
  have "gt50 (channel0 (rawData list_api (white_page m)) HIDDEN_SIZE 0 0)"
    by (simp add: white_raw channel0_def js_index_def gt50_def HIDDEN_SIZE_def)
  moreover have "0 < HIDDEN_SIZE" by (simp add: HIDDEN_SIZE_def)
  ultimately have "getBoundingBox (rawData list_api (white_page m)) HIDDEN_SIZE HIDDEN_SIZE \<noteq> None"
    unfolding getBoundingBox_None_iff by blast
  then show ?thesis by blast
qed

lemma list_api_frame_length: "length (frame_bytes list_api st b s) = 4 * 28 * 28"
  by (simp add: frame_bytes_def list_api_def)

theorem extractInputTensor_frame_witness:
  "map_option length (fst (extractInputTensor list_api (white_page uniform_model) 0 0)) = Some 784"
proof -
  obtain b where b: "getBoundingBox (rawData list_api (white_page uniform_model)) HIDDEN_SIZE HIDDEN_SIZE = Some b"
    using white_has_box by blast
  with extractInputTensor_frame[of list_api "white_page uniform_model" 0 0]
    list_api_frame_length[of "white_page uniform_model" b "(0, 0)"]
  obtain input where "fst (extractInputTensor list_api (white_page uniform_model) 0 0) = Some input"
    and "length input = 784"
    by blast
  then show ?thesis by simp
qed

section \<open>The click handler\<close>

lemma extract_some:
  assumes "getBoundingBox (rawData api st) HIDDEN_SIZE HIDDEN_SIZE = Some b"
  shows "\<exists>st'. extractInputTensor api st (fst s) (snd s) = (Some (frame_input api st b s), st') \<and>
     hiddenCanvas st' = hiddenCanvas st \<and> bbox_log st' = bbox_log st @ [Some b] \<and>
     model st' = model st \<and> live_tensors st' = live_tensors st \<and> next_tensor st' = next_tensor st"
proof -
  let ?r = "extractInputTensor api st (fst s) (snd s)"
  have "fst ?r = Some (frame_input api st b s)"
    by (simp only: extract_fst assms option.case frame_input_def prod.collapse)
  moreover have "hiddenCanvas (snd ?r) = hiddenCanvas st" by (rule extract_hidden)
  moreover have "bbox_log (snd ?r) = bbox_log st @ [Some b]" by (simp only: extract_log assms)
  moreover note extract_other[of api st "fst s" "snd s"]
  ultimately show ?thesis by (intro exI[of _ "snd ?r"]) (simp add: prod_eq_iff)
qed

lemma extract_none:
  assumes "getBoundingBox (rawData api st) HIDDEN_SIZE HIDDEN_SIZE = None"
  shows "\<exists>st'. extractInputTensor api st (fst s) (snd s) = (None, st') \<and>
     hiddenCanvas st' = hiddenCanvas st \<and> bbox_log st' = bbox_log st @ [None] \<and>
     model st' = model st \<and> live_tensors st' = live_tensors st \<and> next_tensor st' = next_tensor st"
proof -
  let ?r = "extractInputTensor api st (fst s) (snd s)"
  have "fst ?r = None"
    by (simp only: extract_fst assms option.case)
  moreover have "hiddenCanvas (snd ?r) = hiddenCanvas st" by (rule extract_hidden)
  moreover have "bbox_log (snd ?r) = bbox_log st @ [None]" by (simp only: extract_log assms)
  moreover note extract_other[of api st "fst s" "snd s"]
  ultimately show ?thesis by (intro exI[of _ "snd ?r"]) (simp add: prod_eq_iff)
qed

lemma collect_inputs_some:
  assumes "getBoundingBox (rawData api st) HIDDEN_SIZE HIDDEN_SIZE = Some b"
  shows "fst (collect_inputs api ss acc st) = acc @ map (frame_input api st b) ss \<and>
     hiddenCanvas (snd (collect_inputs api ss acc st)) = hiddenCanvas st \<and>
     bbox_log (snd (collect_inputs api ss acc st)) = bbox_log st @ replicate (length ss) (Some b) \<and>
     model (snd (collect_inputs api ss acc st)) = model st \<and>
     live_tensors (snd (collect_inputs api ss acc st)) = live_tensors st \<and>
     next_tensor (snd (collect_inputs api ss acc st)) = next_tensor st"
  using assms
proof (induction ss arbitrary: acc st)
  case Nil
  then show ?case by simp
next
  case (Cons s ss)
  from extract_some[OF Cons.prems, of s] obtain st1 where
    e: "extractInputTensor api st (fst s) (snd s) = (Some (frame_input api st b s), st1)"
    and h: "hiddenCanvas st1 = hiddenCanvas st" and l: "bbox_log st1 = bbox_log st @ [Some b]"
    and o: "model st1 = model st" "live_tensors st1 = live_tensors st" "next_tensor st1 = next_tensor st"
    by blast
  have r: "rawData api st1 = rawData api st" using h by (rule rawData_cong)
  have f: "frame_input api st1 b = frame_input api st b"
    by (intro ext) (simp only: frame_input_def frame_bytes_cong[OF h])
  have b1: "getBoundingBox (rawData api st1) HIDDEN_SIZE HIDDEN_SIZE = Some b"
    using Cons.prems by (simp only: r)
  have c: "collect_inputs api (s # ss) acc st =
        collect_inputs api ss (acc @ [frame_input api st b s]) st1"
    by (simp add: e)
  show ?case
    unfolding c using Cons.IH[OF b1, of "acc @ [frame_input api st b s]"]
    by (simp add: f h l o replicate_append_same)
qed

lemma collect_inputs_none:
  assumes "getBoundingBox (rawData api st) HIDDEN_SIZE HIDDEN_SIZE = None"
  shows "fst (collect_inputs api ss acc st) = acc \<and>
     hiddenCanvas (snd (collect_inputs api ss acc st)) = hiddenCanvas st \<and>
     bbox_log (snd (collect_inputs api ss acc st)) = bbox_log st @ replicate (length ss) None \<and>
     model (snd (collect_inputs api ss acc st)) = model st \<and>
     live_tensors (snd (collect_inputs api ss acc st)) = live_tensors st \<and>
     next_tensor (snd (collect_inputs api ss acc st)) = next_tensor st"
  using assms
proof (induction ss arbitrary: acc st)
  case Nil
  then show ?case by simp
next
  case (Cons s ss)
  from extract_none[OF Cons.prems, of s] obtain st1 where
    e: "extractInputTensor api st (fst s) (snd s) = (None, st1)"
    and h: "hiddenCanvas st1 = hiddenCanvas st" and l: "bbox_log st1 = bbox_log st @ [None]"
    and o: "model st1 = model st" "live_tensors st1 = live_tensors st" "next_tensor st1 = next_tensor st"
    by blast
  have r: "rawData api st1 = rawData api st" using h by (rule rawData_cong)
  have b1: "getBoundingBox (rawData api st1) HIDDEN_SIZE HIDDEN_SIZE = None"
    using Cons.prems by (simp only: r)
  have c: "collect_inputs api (s # ss) acc st = collect_inputs api ss acc st1"
    by (simp add: e)
  show ?case
    unfolding c using Cons.IH[OF b1, of acc]
    by (simp add: h l o replicate_append_same)
qed

lemma collect_inputs_log:
  "bbox_log (snd (collect_inputs api ss acc st)) =
     bbox_log st @ replicate (length ss) (getBoundingBox (rawData api st) HIDDEN_SIZE HIDDEN_SIZE)"
  using collect_inputs_some[of api st _ ss acc] collect_inputs_none[of api st ss acc]
  by (cases "getBoundingBox (rawData api st) HIDDEN_SIZE HIDDEN_SIZE") simp_all

lemma collect_inputs_tensors:
  "live_tensors (snd (collect_inputs api ss acc st)) = live_tensors st"
  "next_tensor (snd (collect_inputs api ss acc st)) = next_tensor st"
  using collect_inputs_some[of api st _ ss acc] collect_inputs_none[of api st ss acc]
  by (cases "getBoundingBox (rawData api st) HIDDEN_SIZE HIDDEN_SIZE"; simp)+


lemma predict_exit:
  "fst (predictBtn_click api st) =
     (case model st of
        None \<Rightarrow> NoModel
      | Some m \<Rightarrow>
          if fst (collect_inputs api shifts [] st) = [] then EmptyCanvas
          else (case m_predict m (fst (collect_inputs api shifts [] st)) of
                  Inl e \<Rightarrow> Threw e
                | Inr out \<Rightarrow>
                    (case m_data m out of
                       Inl e \<Rightarrow> Threw e
                     | Inr probs \<Rightarrow>
                         Completed (average probs (length (fst (collect_inputs api shifts [] st)))))))"
  by (simp add: predictBtn_click_def Let_def split: option.splits prod.splits sum.splits)

lemma predict_log:
  "bbox_log (snd (predictBtn_click api st)) =
     (case model st of
        None \<Rightarrow> bbox_log st
      | Some m \<Rightarrow> bbox_log (snd (collect_inputs api shifts [] st)))"
  by (simp add: predictBtn_click_def Let_def tf_alloc_def tf_dispose_def
      split: option.splits prod.splits sum.splits)

lemma predict_live_raw:
  "live_tensors (snd (predictBtn_click api st)) =
     (case model st of
        None \<Rightarrow> live_tensors st
      | Some m \<Rightarrow>
          (let st1 = snd (collect_inputs api shifts [] st);
               n = next_tensor st1; live = live_tensors st1 in
           if fst (collect_inputs api shifts [] st) = [] then live
           else (case m_predict m (fst (collect_inputs api shifts [] st)) of
                   Inl e \<Rightarrow> n # live
                 | Inr out \<Rightarrow>
                     (case m_data m out of
                        Inl e \<Rightarrow> Suc n # n # live
                      | Inr probs \<Rightarrow> removeAll (Suc n) (removeAll n (Suc n # n # live))))))"
  by (simp add: predictBtn_click_def Let_def tf_alloc_def tf_dispose_def
      split: option.splits prod.splits sum.splits)

lemma predict_live:
  assumes "\<forall>t\<in>set (live_tensors st). t < next_tensor st"
  shows "live_tensors (snd (predictBtn_click api st)) =
     (case model st of
        None \<Rightarrow> live_tensors st
      | Some m \<Rightarrow>
          if fst (collect_inputs api shifts [] st) = [] then live_tensors st
          else (case m_predict m (fst (collect_inputs api shifts [] st)) of
                  Inl e \<Rightarrow> next_tensor st # live_tensors st
                | Inr out \<Rightarrow>
                    (case m_data m out of
                       Inl e \<Rightarrow> Suc (next_tensor st) # next_tensor st # live_tensors st
                     | Inr probs \<Rightarrow> live_tensors st)))"
proof -
  have "next_tensor st \<notin> set (live_tensors st)" "Suc (next_tensor st) \<notin> set (live_tensors st)"
    using assms by auto
  then show ?thesis
    unfolding predict_live_raw Let_def collect_inputs_tensors
    by (simp add: removeAll_id split: option.splits sum.splits)
qed

text \<open>
  With the identifiers of the live tensors below the allocation counter, as the runtime
  keeps them: when the handler leaves without throwing, the live tensors are those that
  were live before the call.
\<close>

lemma predict_disposes_on_return:
  assumes "\<forall>t\<in>set (live_tensors st). t < next_tensor st"
    and "\<not> is_throw (fst (predictBtn_click api st))"
  shows "live_tensors (snd (predictBtn_click api st)) = live_tensors st"
  using assms(2) unfolding predict_live[OF assms(1)] predict_exit
  by (auto split: option.splits sum.splits if_splits)

lemma white_batch:
  "fst (collect_inputs list_api shifts [] (white_page m)) \<noteq> []"
proof -
  obtain b where "getBoundingBox (rawData list_api (white_page m)) HIDDEN_SIZE HIDDEN_SIZE = Some b"
    using white_has_box by blast
  from collect_inputs_some[OF this, of shifts "[]"] show ?thesis
    by (simp add: shifts_def)
qed

lemma white_failing_live:
  "live_tensors (snd (predictBtn_click list_api (white_page failing_model))) = [1, 0]"
proof -
  have "\<forall>t\<in>set (live_tensors (white_page failing_model)). t < next_tensor (white_page failing_model)"
    by (simp add: white_page_def)
  from predict_live[OF this, of list_api] white_batch[of failing_model]
  show ?thesis by (simp add: white_page_def failing_model_def)
qed

lemma white_failing_exit:
  "fst (predictBtn_click list_api (white_page failing_model)) = Threw PredictFailed"
  unfolding predict_exit using white_batch[of failing_model]
  by (simp add: white_page_def failing_model_def)

lemma white_failing_read_live:
  "live_tensors (snd (predictBtn_click list_api (white_page failing_read_model))) = [2, 1, 0]"
proof -
  have "\<forall>t\<in>set (live_tensors (white_page failing_read_model)).
          t < next_tensor (white_page failing_read_model)"
    by (simp add: white_page_def)
  from predict_live[OF this, of list_api] white_batch[of failing_read_model]
  show ?thesis by (simp add: white_page_def failing_read_model_def)
qed

lemma white_failing_read_exit:
  "fst (predictBtn_click list_api (white_page failing_read_model)) = Threw DataFailed"
  unfolding predict_exit using white_batch[of failing_read_model]
  by (simp add: white_page_def failing_read_model_def)

text \<open>
  Claim C9. The claim asks that every tensor allocated during a handler invocation is
  disposed on every exit path, the throwing ones included. The handler does not meet it.
  On the white page, where one tensor (identifier 0) is live before the call: with a model
  whose call throws, the invocation ends by that error and the batch tensor (identifier
  1) is still allocated; with a model whose read-back throws, the batch tensor and the
  prediction tensor (identifiers 1 and 2) both are. The two \<^verbatim>\<open>dispose\<close> calls that end
  the handler are not reached.
\<close>

theorem predict_leaks_tensors_on_throw:
  "live_tensors (white_page failing_model) = [0] \<and>
   fst (predictBtn_click list_api (white_page failing_model)) = Threw PredictFailed \<and>
   live_tensors (snd (predictBtn_click list_api (white_page failing_model))) = [1, 0] \<and>
   live_tensors (white_page failing_read_model) = [0] \<and>
   fst (predictBtn_click list_api (white_page failing_read_model)) = Threw DataFailed \<and>
   live_tensors (snd (predictBtn_click list_api (white_page failing_read_model))) = [2, 1, 0]"
  using white_failing_exit white_failing_live white_failing_read_exit white_failing_read_live
  by (simp add: white_page_def)

lemma predict_log_replicate:
  assumes "model st = Some m"
  shows "bbox_log (snd (predictBtn_click api st)) =
     bbox_log st @ replicate 5 (getBoundingBox (rawData api st) HIDDEN_SIZE HIDDEN_SIZE)"
proof -
  have "length shifts = 5" by (simp add: shifts_def)
  then show ?thesis
    unfolding predict_log collect_inputs_log using assms by simp
qed

text \<open>
  Claim C4, amended. In a handler invocation with a model, on a canvas with ink,
  \<^verbatim>\<open>getBoundingBox\<close> is called once per shift, five times in all; every call returns the
  same box \<open>b\<close>, since building a frame leaves the hidden canvas as it was; and the five
  batch rows are the frames built from \<open>b\<close> with the five shifts.
\<close>

theorem predict_extracts_box_per_shift:
  assumes "model st = Some m"
    and "getBoundingBox (rawData api st) HIDDEN_SIZE HIDDEN_SIZE = Some b"
  shows "bbox_log (snd (predictBtn_click api st)) = bbox_log st @ replicate 5 (Some b) \<and>
     fst (collect_inputs api shifts [] st) = map (frame_input api st b) shifts \<and>
     hiddenCanvas (snd (collect_inputs api shifts [] st)) = hiddenCanvas st"
  using predict_log_replicate[OF assms(1), of api] collect_inputs_some[OF assms(2), of shifts "[]"]
  by (simp add: assms(2))

lemma white_channel0:
  assumes "x < HIDDEN_SIZE" "y < HIDDEN_SIZE"
  shows "channel0 (rawData list_api (white_page m)) HIDDEN_SIZE x y = Some 255"
proof -
  have "(y * 560 + x) * 4 < 4 * 560 * 560" using assms by (simp add: HIDDEN_SIZE_def)
  then show ?thesis
    by (simp add: white_raw channel0_def js_index_def HIDDEN_SIZE_def)
qed

lemma white_box:
  "getBoundingBox (rawData list_api (white_page m)) HIDDEN_SIZE HIDDEN_SIZE =
     Some \<lparr>box_minX = 0, box_minY = 0, box_w = 560, box_h = 560\<rparr>"
proof -
  let ?d = "rawData list_api (white_page m)"
  obtain b where b: "getBoundingBox ?d HIDDEN_SIZE HIDDEN_SIZE = Some b"
    using white_has_box by blast
  note t = getBoundingBox_Some_tight[OF b]
  have ink: "\<And>x y. x < HIDDEN_SIZE \<Longrightarrow> y < HIDDEN_SIZE \<Longrightarrow> gt50 (channel0 ?d HIDDEN_SIZE x y)"
    by (simp add: white_channel0 gt50_def)
  have "0 < HIDDEN_SIZE" "559 < HIDDEN_SIZE" by (simp_all add: HIDDEN_SIZE_def)
  with t(1) ink have lo: "box_minX b \<le> 0 \<and> int 0 \<le> int (box_minX b) + box_w b - 1 \<and>
      box_minY b \<le> 0 \<and> int 0 \<le> int (box_minY b) + box_h b - 1"
    and hi: "box_minX b \<le> 559 \<and> int 559 \<le> int (box_minX b) + box_w b - 1 \<and>
      box_minY b \<le> 559 \<and> int 559 \<le> int (box_minY b) + box_h b - 1"
    by blast+
  from t(3) obtain x where "x < HIDDEN_SIZE" "int x = int (box_minX b) + box_w b - 1" by blast
  moreover from t(5) obtain y where "y < HIDDEN_SIZE" "int y = int (box_minY b) + box_h b - 1" by blast
  ultimately have "box_minX b = 0 \<and> box_minY b = 0 \<and> box_w b = 560 \<and> box_h b = 560"
    using lo hi by (simp add: HIDDEN_SIZE_def)
  then have "b = \<lparr>box_minX = 0, box_minY = 0, box_w = 560, box_h = 560\<rparr>" by simp
  with b show ?thesis by simp
qed

theorem predict_extracts_box_per_shift_witness:
  "bbox_log (snd (predictBtn_click list_api (white_page uniform_model))) =
     replicate 5 (Some \<lparr>box_minX = 0, box_minY = 0, box_w = 560, box_h = 560\<rparr>)"
proof -
  define b where "b = \<lparr>box_minX = 0, box_minY = 0, box_w = 560, box_h = 560\<rparr>"
  have b: "getBoundingBox (rawData list_api (white_page uniform_model)) HIDDEN_SIZE HIDDEN_SIZE = Some b"
    unfolding b_def by (rule white_box)
  have m: "model (white_page uniform_model) = Some uniform_model"
    by (simp add: white_page_def)
  from predict_extracts_box_per_shift[OF m b]
  have "bbox_log (snd (predictBtn_click list_api (white_page uniform_model))) =
      bbox_log (white_page uniform_model) @ replicate 5 (Some b)"
    by blast
  then show ?thesis by (simp add: white_page_def b_def)
qed

text \<open>
  Claim C4 as stated fails: on the white page the handler does not extract the box
  exactly once (it does so five times).
\<close>

theorem predict_extracts_box_once_counterexample:
  "\<not> length (bbox_log (snd (predictBtn_click list_api (white_page uniform_model)))) =
      length (bbox_log (white_page uniform_model)) + 1"
proof -
  have "model (white_page uniform_model) = Some uniform_model"
    by (simp add: white_page_def)
  from predict_log_replicate[OF this, of list_api] show ?thesis by simp
qed

section \<open>The isotropic scale\<close>

lemma scaled_side_upper:
  assumes "1 \<le> m" "0 \<le> k" "k \<le> m"
  shows "fl (k * fl (20 / m)) \<le> 20 * (1 + eps) ^ 2"
proof -
  have s0: "0 \<le> fl (20 / m)" using assms by (intro fl_nonneg) simp
  have s1: "fl (20 / m) \<le> 20 / m * (1 + eps)" using assms by (intro fl_upper) simp
  have "fl (k * fl (20 / m)) \<le> k * fl (20 / m) * (1 + eps)"
    using assms s0 by (intro fl_upper) simp
  also have "\<dots> \<le> m * fl (20 / m) * (1 + eps)"
    using assms s0 eps_pos by (intro mult_right_mono) simp_all
  also have "\<dots> \<le> m * (20 / m * (1 + eps)) * (1 + eps)"
    using assms s1 eps_pos by (intro mult_right_mono mult_left_mono) simp_all
  also have "\<dots> = 20 * (1 + eps) ^ 2"
    using assms by (simp add: power2_eq_square)
  finally show ?thesis .
qed

lemma scaled_side_lower:
  assumes "1 \<le> m"
  shows "20 * (1 - eps) ^ 2 \<le> fl (m * fl (20 / m))"
proof -
  have s0: "0 \<le> fl (20 / m)" using assms by (intro fl_nonneg) simp
  have s1: "20 / m * (1 - eps) \<le> fl (20 / m)" using assms by (intro fl_lower) simp
  have "20 * (1 - eps) ^ 2 = m * (20 / m * (1 - eps)) * (1 - eps)"
    using assms by (simp add: power2_eq_square)
  also have "\<dots> \<le> m * fl (20 / m) * (1 - eps)"
    using assms s1 eps_pos by (intro mult_right_mono mult_left_mono) simp_all
  also have "\<dots> \<le> fl (m * fl (20 / m))"
    using assms s0 by (intro fl_lower) simp
  finally show ?thesis .
qed

lemma eps_square_bounds:
  "20 * (1 + eps) ^ 2 \<le> 20 + 1 / 2 ^ 47" "20 - 1 / 2 ^ 47 \<le> 20 * (1 - eps) ^ 2"
  by (simp_all add: eps_def power2_eq_square field_simps)

lemma scaled_max_near_20:
  assumes "1 \<le> box_w b" "1 \<le> box_h b"
  shows "\<bar>max (scaled_w b) (scaled_h b) - 20\<bar> \<le> 1 / 2 ^ 47"
proof -
  define m :: real where "m = of_int (max (box_w b) (box_h b))"
  have m1: "1 \<le> m" using assms by (simp add: m_def)
  have w: "0 \<le> real_of_int (box_w b)" "real_of_int (box_w b) \<le> m"
    and h: "0 \<le> real_of_int (box_h b)" "real_of_int (box_h b) \<le> m"
    using assms by (simp_all add: m_def)
  have sw: "scaled_w b = fl (of_int (box_w b) * fl (20 / m))"
    and sh: "scaled_h b = fl (of_int (box_h b) * fl (20 / m))"
    by (simp_all add: scaled_w_def scaled_h_def scale_of_def js_mul_def js_div_def m_def)
  have up: "max (scaled_w b) (scaled_h b) \<le> 20 * (1 + eps) ^ 2"
    using scaled_side_upper[OF m1 w] scaled_side_upper[OF m1 h] by (simp add: sw sh)
  have "m = of_int (box_w b) \<or> m = of_int (box_h b)"
    by (simp add: m_def max_def)
  then have "20 * (1 - eps) ^ 2 \<le> max (scaled_w b) (scaled_h b)"
    using scaled_side_lower[OF m1] by (auto simp: sw sh le_max_iff_disj)
  with up eps_square_bounds show ?thesis by linarith
qed

lemma box_77_1_value: "max (scaled_w box_77_1) (scaled_h box_77_1) = 20 - 1 / 2 ^ 48"
  unfolding scaled_w_def scaled_h_def scale_of_def js_mul_def js_div_def box_77_1_def
  by code_simp

lemma box_100_50_values:
  "scale_of box_100_50 = fl (2 / 10)" "scaled_w box_100_50 = 20" "scaled_h box_100_50 = 10"
  unfolding scaled_w_def scaled_h_def scale_of_def js_mul_def js_div_def box_100_50_def
  by code_simp+

text \<open>
  Claim C5 as stated fails: with binary64 arithmetic the larger scaled side of a box 77
  samples wide is \<open>20 - 2^-48\<close>, not 20.
\<close>

theorem scale_exactly_20_counterexample:
  "1 \<le> box_w box_77_1 \<and> 1 \<le> box_h box_77_1 \<and>
   max (scaled_w box_77_1) (scaled_h box_77_1) \<noteq> 20"
proof -
  have "max (scaled_w box_77_1) (scaled_h box_77_1) \<noteq> 20"
    unfolding box_77_1_value by simp
  then show ?thesis by (simp add: box_77_1_def)
qed

text \<open>
  Claim C5, amended. For a box with width and height at least 1, the scale is
  \<open>20 / max(width, height)\<close> rounded to binary64, the scaled sides are \<open>width * scale\<close>
  and \<open>height * scale\<close> rounded to binary64 (never to integers), and the larger scaled
  side is within \<open>2^-47\<close> of 20. A box of 100 by 50 gives scale 0.2 (the binary64 number
  nearest to it), \<open>sw = 20\<close> and \<open>sh = 10\<close>.
\<close>

theorem scale_maps_larger_side_to_20:
  assumes "1 \<le> box_w b" "1 \<le> box_h b"
  shows "scale_of b = fl (20 / of_int (max (box_w b) (box_h b))) \<and>
     scaled_w b = fl (of_int (box_w b) * scale_of b) \<and>
     scaled_h b = fl (of_int (box_h b) * scale_of b) \<and>
     \<bar>max (scaled_w b) (scaled_h b) - 20\<bar> \<le> 1 / 2 ^ 47 \<and>
     (box_w b = 100 \<and> box_h b = 50 \<longrightarrow>
        scale_of b = fl (2 / 10) \<and> scaled_w b = 20 \<and> scaled_h b = 10)"
proof (intro conjI impI)
  show "\<bar>max (scaled_w b) (scaled_h b) - 20\<bar> \<le> 1 / 2 ^ 47"
    using assms by (rule scaled_max_near_20)
next
  assume d: "box_w b = 100 \<and> box_h b = 50"
  then have e: "scale_of b = scale_of box_100_50" "scaled_w b = scaled_w box_100_50"
    "scaled_h b = scaled_h box_100_50"
    by (simp_all add: scaled_w_def scaled_h_def scale_of_def box_100_50_def)
  show "scale_of b = fl (2 / 10)" "scaled_w b = 20" "scaled_h b = 10"
    unfolding e by (rule box_100_50_values)+
qed (simp_all add: scale_of_def scaled_w_def scaled_h_def js_div_def js_mul_def)

theorem scale_maps_larger_side_to_20_witness:
  "scale_of box_100_50 = fl (2 / 10) \<and> scaled_w box_100_50 = 20 \<and> scaled_h box_100_50 = 10 \<and>
   \<bar>max (scaled_w box_100_50) (scaled_h box_100_50) - 20\<bar> \<le> 1 / 2 ^ 47"
proof -
  have h: "1 \<le> box_w box_100_50" "1 \<le> box_h box_100_50"
    "box_w box_100_50 = 100 \<and> box_h box_100_50 = 50"
    by (simp_all add: box_100_50_def)
  from scale_maps_larger_side_to_20[OF h(1,2)] h(3) show ?thesis by blast
qed


section \<open>Averaging the probability rows\<close>

lemma fold_update_each:
  assumes "k \<le> length a"
  shows "fold (\<lambda>j avg. avg[j := g j (avg ! j)]) [0..<k] a =
         map (\<lambda>j. g j (a ! j)) [0..<k] @ drop k a"
  using assms
proof (induction k)
  case 0
  then show ?case by simp
next
  case (Suc k)
  then have k: "k < length a" by simp
  let ?b = "map (\<lambda>j. g j (a ! j)) [0..<k] @ drop k a"
  have f: "fold (\<lambda>j avg. avg[j := g j (avg ! j)]) [0..<k] a = ?b"
    using Suc by simp
  have bk: "?b ! k = a ! k" using k by (simp add: nth_append)
  have "?b[k := g k (a ! k)] = map (\<lambda>j. g j (a ! j)) [0..<k] @ (drop k a)[0 := g k (a ! k)]"
    by (simp add: list_update_append)
  also have "(drop k a)[0 := g k (a ! k)] = g k (a ! k) # drop (Suc k) a"
    using k by (simp add: Cons_nth_drop_Suc[symmetric])
  finally show ?case using f bk by simp
qed

lemma fold_update_all:
  assumes "length a = m"
  shows "fold (\<lambda>j avg. avg[j := g j (avg ! j)]) [0..<m] a = map (\<lambda>j. g j (a ! j)) [0..<m]"
  using fold_update_each[of m a g] assms by simp

lemma rows_fold:
  "fold (\<lambda>i. fold (\<lambda>j avg. avg[j := num_add (avg ! j) (js_index probs (i * 10 + j))]) [0..<10])
        [0..<n] (replicate 10 (Some 0)) =
   map (col_acc probs n) [0..<10]"
proof (induction n)
  case 0
  have "replicate 10 (Some (0::real)) = map (\<lambda>j. Some 0) [0..<10]"
    by (simp only: map_replicate_const length_upt diff_zero)
  then show ?case by (simp add: col_acc_def del: upt_rec_numeral)
next
  case (Suc n)
  let ?a = "map (col_acc probs n) [0..<10]"
  have l: "length ?a = 10" by (simp del: upt_rec_numeral)
  have "fold (\<lambda>j avg. avg[j := num_add (avg ! j) (js_index probs (n * 10 + j))]) [0..<10] ?a =
        map (\<lambda>j. num_add (?a ! j) (js_index probs (n * 10 + j))) [0..<10]"
    by (rule fold_update_all[OF l])
  also have "\<dots> = map (col_acc probs (Suc n)) [0..<10]"
    by (rule map_cong) (simp_all add: col_acc_def del: upt_rec_numeral)
  finally show ?case using Suc by (simp del: upt_rec_numeral)
qed

lemma average_columns:
  "average probs n = map (\<lambda>j. num_div (col_acc probs n j) (real n)) [0..<10]"
proof -
  let ?a = "map (col_acc probs n) [0..<10]"
  have l: "length ?a = 10" by (simp del: upt_rec_numeral)
  have "average probs n = fold (\<lambda>j avg. avg[j := num_div (avg ! j) (real n)]) [0..<10] ?a"
    unfolding average_def Let_def rows_fold ..
  also have "\<dots> = map (\<lambda>j. num_div (?a ! j) (real n)) [0..<10]"
    by (rule fold_update_all[OF l])
  also have "\<dots> = map (\<lambda>j. num_div (col_acc probs n j) (real n)) [0..<10]"
    by (rule map_cong) (simp_all del: upt_rec_numeral)
  finally show ?thesis .
qed

lemma col_acc_present:
  assumes "length probs = 10 * n" "j < 10" "k \<le> n"
  shows "col_acc probs k j = Some (col_sum probs k j)"
  using assms(3)
proof (induction k)
  case 0
  then show ?case by (simp add: col_acc_def col_sum_def)
next
  case (Suc k)
  then have "k * 10 + j < length probs" using assms(1,2) by simp
  then have "js_index probs (k * 10 + j) = Some (probs ! (k * 10 + j))"
    by (simp add: js_index_def)
  then show ?case using Suc by (simp add: col_acc_def col_sum_def num_add_def)
qed

lemma average_present:
  assumes "length probs = 10 * n"
  shows "average probs n = map (\<lambda>j. Some (js_div (col_sum probs n j) (real n))) [0..<10]"
  unfolding average_columns
  by (rule map_cong) (simp_all add: col_acc_present[OF assms] num_div_def del: upt_rec_numeral)


lemma one_minus_eps: "0 \<le> 1 - eps" "1 - eps \<le> 1" "1 \<le> 1 + eps"
  using eps_pos by simp_all

lemma col_sum_bounds:
  assumes "\<forall>i<n. 0 \<le> probs ! (i * 10 + j)"
  shows "0 \<le> col_exact probs n j \<and>
         col_exact probs n j * (1 - eps) ^ n \<le> col_sum probs n j \<and>
         col_sum probs n j \<le> col_exact probs n j * (1 + eps) ^ n"
  using assms
proof (induction n)
  case 0
  then show ?case by (simp add: col_exact_def col_sum_def)
next
  case (Suc n)
  define S where "S = col_exact probs n j"
  define s where "s = col_sum probs n j"
  define p where "p = probs ! (n * 10 + j)"
  have p0: "0 \<le> p" using Suc.prems by (simp add: p_def)
  have ih: "0 \<le> S" "S * (1 - eps) ^ n \<le> s" "s \<le> S * (1 + eps) ^ n"
    using Suc by (simp_all add: S_def s_def)
  have S': "col_exact probs (Suc n) j = S + p"
    by (simp add: col_exact_def S_def p_def)
  have s': "col_sum probs (Suc n) j = fl (s + p)"
    by (simp add: col_sum_def s_def p_def js_add_def)
  have pl: "(1 - eps) ^ n \<le> 1" using one_minus_eps by (intro power_le_one) simp_all
  have pu: "1 \<le> (1 + eps) ^ n" using one_minus_eps by (intro one_le_power) simp_all
  have pl0: "0 \<le> (1 - eps) ^ n" using one_minus_eps by simp
  have s0: "0 \<le> s" using ih(1,2) pl0 by (meson mult_nonneg_nonneg order_trans)
  have sp0: "0 \<le> s + p" using s0 p0 by simp
  have "p * (1 - eps) ^ n \<le> p" using p0 pl by (simp add: mult_left_le)
  then have "(S + p) * (1 - eps) ^ n \<le> s + p"
    using ih(2) by (simp add: distrib_right)
  then have "(S + p) * (1 - eps) ^ n * (1 - eps) \<le> (s + p) * (1 - eps)"
    using one_minus_eps by (intro mult_right_mono)
  also have "\<dots> \<le> fl (s + p)" using sp0 by (rule fl_lower)
  finally have lo: "(S + p) * (1 - eps) ^ Suc n \<le> fl (s + p)" by (simp add: power_Suc2 mult.assoc del: power_Suc)
  have "p \<le> p * (1 + eps) ^ n" using p0 pu by (simp add: mult_le_cancel_left1)
  then have "s + p \<le> (S + p) * (1 + eps) ^ n"
    using ih(3) by (simp add: distrib_right)
  then have "(s + p) * (1 + eps) \<le> (S + p) * (1 + eps) ^ n * (1 + eps)"
    using one_minus_eps by (intro mult_right_mono) simp_all
  moreover have "fl (s + p) \<le> (s + p) * (1 + eps)" using sp0 by (rule fl_upper)
  ultimately have up: "fl (s + p) \<le> (S + p) * (1 + eps) ^ Suc n" by (simp add: power_Suc2 mult.assoc del: power_Suc)
  show ?case using ih(1) p0 lo up by (simp add: S' s')
qed

lemma eps_power6:
  "(1 + eps) ^ 6 \<le> 1 + 1 / 10 ^ 15" "1 - 1 / 10 ^ 15 \<le> (1 - eps) ^ 6"
  unfolding eps_def by code_simp+

lemma eps_power_le:
  assumes "n \<le> 5"
  shows "(1 + eps) ^ Suc n \<le> 1 + 1 / 10 ^ 15" "1 - 1 / 10 ^ 15 \<le> (1 - eps) ^ Suc n"
proof -
  have "(1 + eps) ^ Suc n \<le> (1 + eps) ^ 6"
    using assms one_minus_eps by (intro power_increasing) simp_all
  with eps_power6(1) show "(1 + eps) ^ Suc n \<le> 1 + 1 / 10 ^ 15" by linarith
  have "(1 - eps) ^ 6 \<le> (1 - eps) ^ Suc n"
    using assms one_minus_eps by (intro power_decreasing) simp_all
  with eps_power6(2) show "1 - 1 / 10 ^ 15 \<le> (1 - eps) ^ Suc n" by linarith
qed

lemma mean_entry_close:
  assumes "1 \<le> n" "n \<le> 5" "\<forall>i<n. 0 \<le> probs ! (i * 10 + j)"
  shows "\<bar>js_div (col_sum probs n j) (real n) - col_exact probs n j / real n\<bar>
           \<le> (col_exact probs n j / real n) / 10 ^ 15"
proof -
  define S where "S = col_exact probs n j"
  define s where "s = col_sum probs n j"
  define M where "M = S / real n"
  have n0: "0 < real n" using assms(1) by simp
  from col_sum_bounds[OF assms(3)]
  have b: "0 \<le> S" "S * (1 - eps) ^ n \<le> s" "s \<le> S * (1 + eps) ^ n"
    by (simp_all add: S_def s_def)
  have M0: "0 \<le> M" using b(1) n0 by (simp add: M_def)
  have pl0: "0 \<le> (1 - eps) ^ n" using one_minus_eps by simp
  have s0: "0 \<le> s" using b(1,2) pl0 by (meson mult_nonneg_nonneg order_trans)
  have q0: "0 \<le> s / real n" using s0 n0 by simp
  have ql: "M * (1 - eps) ^ n \<le> s / real n"
    using b(2) n0 by (simp add: M_def field_simps)
  have qu: "s / real n \<le> M * (1 + eps) ^ n"
    using b(3) n0 by (simp add: M_def field_simps)
  have "M * (1 - eps) ^ n * (1 - eps) \<le> s / real n * (1 - eps)"
    using ql one_minus_eps by (intro mult_right_mono)
  also have "\<dots> \<le> fl (s / real n)" using q0 by (rule fl_lower)
  finally have lo: "M * (1 - eps) ^ Suc n \<le> fl (s / real n)" by (simp add: power_Suc2 mult.assoc del: power_Suc)
  have "fl (s / real n) \<le> s / real n * (1 + eps)" using q0 by (rule fl_upper)
  also have "\<dots> \<le> M * (1 + eps) ^ n * (1 + eps)"
    using qu one_minus_eps by (intro mult_right_mono) simp_all
  finally have up: "fl (s / real n) \<le> M * (1 + eps) ^ Suc n" by (simp add: power_Suc2 mult.assoc del: power_Suc)
  have "M * (1 - 1 / 10 ^ 15) \<le> M * (1 - eps) ^ Suc n"
    using M0 eps_power_le(2)[OF assms(2)] by (rule mult_left_mono[rotated])
  with lo have lo': "M - M / 10 ^ 15 \<le> fl (s / real n)" by (simp add: right_diff_distrib)
  have "M * (1 + eps) ^ Suc n \<le> M * (1 + 1 / 10 ^ 15)"
    using M0 eps_power_le(1)[OF assms(2)] by (rule mult_left_mono[rotated])
  with up have up': "fl (s / real n) \<le> M + M / 10 ^ 15" by (simp add: distrib_left)
  from lo' up' have "\<bar>fl (s / real n) - M\<bar> \<le> M / 10 ^ 15" by linarith
  then show ?thesis by (simp add: js_div_def s_def M_def S_def)
qed

lemma means_total:
  assumes "1 \<le> n"
  shows "(\<Sum>j<10. col_exact probs n j / real n) = (\<Sum>i<n. \<Sum>j<10. probs ! (i * 10 + j)) / real n"
proof -
  have "(\<Sum>j<10. col_exact probs n j) = (\<Sum>i<n. \<Sum>j<10. probs ! (i * 10 + j))"
    unfolding col_exact_def by (rule sum.swap)
  then show ?thesis by (simp only: sum_divide_distrib[symmetric])
qed

lemma means_total_close:
  assumes "1 \<le> n" "\<forall>i<n. \<bar>(\<Sum>j<10. probs ! (i * 10 + j)) - 1\<bar> \<le> d"
  shows "\<bar>(\<Sum>j<10. col_exact probs n j / real n) - 1\<bar> \<le> d"
proof -
  define r where "r i = (\<Sum>j<10. probs ! (i * 10 + j))" for i
  have n0: "0 < real n" using assms(1) by simp
  have "\<bar>(\<Sum>i<n. r i) - real n\<bar> = \<bar>\<Sum>i<n. (r i - 1)\<bar>"
    by (simp add: sum_subtractf)
  also have "\<dots> \<le> (\<Sum>i<n. \<bar>r i - 1\<bar>)" by (rule sum_abs)
  also have "\<dots> \<le> (\<Sum>i<n. d)" using assms(2) by (intro sum_mono) (simp add: r_def)
  also have "\<dots> = real n * d" by simp
  finally have "\<bar>(\<Sum>i<n. r i) - real n\<bar> \<le> real n * d" .
  then have "\<bar>(\<Sum>i<n. r i) - real n\<bar> / real n \<le> d"
    using n0 by (simp add: pos_divide_le_eq mult.commute)
  moreover have "(\<Sum>i<n. r i) / real n - 1 = ((\<Sum>i<n. r i) - real n) / real n"
    using n0 by (simp add: diff_divide_distrib)
  then have "\<bar>(\<Sum>i<n. r i) / real n - 1\<bar> = \<bar>(\<Sum>i<n. r i) - real n\<bar> / real n"
    using n0 by (simp only: abs_divide abs_of_nat)
  ultimately show ?thesis
    unfolding means_total[OF assms(1)] r_def by simp
qed

lemma average_sum_close:
  assumes "1 \<le> n" "n \<le> 5" "\<forall>k<10 * n. 0 \<le> probs ! k"
    and "\<forall>i<n. \<bar>(\<Sum>j<10. probs ! (i * 10 + j)) - 1\<bar> \<le> d"
  shows "\<bar>(\<Sum>j<10. js_div (col_sum probs n j) (real n)) - 1\<bar> \<le> d + (1 + d) / 10 ^ 15"
proof -
  define T where "T = (\<Sum>j<10. col_exact probs n j / real n)"
  have nn: "\<And>j. j < 10 \<Longrightarrow> \<forall>i<n. 0 \<le> probs ! (i * 10 + j)"
  proof (intro allI impI)
    fix j i :: nat assume "j < 10" "i < n"
    then have "i * 10 + j < 10 * n" by simp
    with assms(3) show "0 \<le> probs ! (i * 10 + j)" by blast
  qed
  have close: "\<And>j. j < 10 \<Longrightarrow>
      \<bar>js_div (col_sum probs n j) (real n) - col_exact probs n j / real n\<bar>
        \<le> (col_exact probs n j / real n) / 10 ^ 15"
    using mean_entry_close[OF assms(1,2)] nn by blast
  have T1: "\<bar>T - 1\<bar> \<le> d" unfolding T_def using assms(1,4) by (rule means_total_close)
  have "\<bar>(\<Sum>j<10. js_div (col_sum probs n j) (real n)) - T\<bar> =
        \<bar>\<Sum>j<10. (js_div (col_sum probs n j) (real n) - col_exact probs n j / real n)\<bar>"
    by (simp only: sum_subtractf T_def)
  also have "\<dots> \<le> (\<Sum>j<10. \<bar>js_div (col_sum probs n j) (real n) - col_exact probs n j / real n\<bar>)"
    by (rule sum_abs)
  also have "\<dots> \<le> (\<Sum>j<10. (col_exact probs n j / real n) / 10 ^ 15)"
    using close by (intro sum_mono) simp
  also have "\<dots> = T / 10 ^ 15"
    unfolding T_def by (rule sum_divide_distrib[symmetric])
  finally have "\<bar>(\<Sum>j<10. js_div (col_sum probs n j) (real n)) - T\<bar> \<le> T / 10 ^ 15" .
  moreover have "T / 10 ^ 15 \<le> (1 + d) / 10 ^ 15"
    using T1 by (simp add: divide_right_mono)
  ultimately show ?thesis using T1 by linarith
qed


text \<open>
  Claim C6. For every batch, each entry of the aggregated vector is its column summed
  from the first row on and then divided by the number of rows, in JavaScript arithmetic
  and with no weights (\<^verbatim>\<open>NaN\<close> where \<^verbatim>\<open>probs\<close> is too short; numbers when it holds \<open>N\<close>
  rows of ten). For \<open>1 \<le> N \<le> 5\<close> rows with entries that are not negative, each entry
  differs from the exact mean of its column by at most that mean times \<open>10^-15\<close>; if every
  row sums to 1 within \<open>d\<close>, the aggregated vector sums to 1 within \<open>d + (1 + d) * 10^-15\<close>;
  so if every row sums to 1, the aggregated vector sums to 1 within \<open>10^-6\<close>.
\<close>

theorem average_is_column_mean:
  "average probs n = map (\<lambda>j. num_div (col_acc probs n j) (real n)) [0..<10] \<and>
   (length probs = 10 * n \<longrightarrow>
      average probs n = map (\<lambda>j. Some (js_div (col_sum probs n j) (real n))) [0..<10]) \<and>
   (1 \<le> n \<and> n \<le> 5 \<and> (\<forall>k<10 * n. 0 \<le> probs ! k) \<longrightarrow>
      (\<forall>j<10. \<bar>js_div (col_sum probs n j) (real n) - (\<Sum>i<n. probs ! (i * 10 + j)) / real n\<bar>
                \<le> ((\<Sum>i<n. probs ! (i * 10 + j)) / real n) / 10 ^ 15) \<and>
      (\<forall>d. (\<forall>i<n. \<bar>(\<Sum>j<10. probs ! (i * 10 + j)) - 1\<bar> \<le> d) \<longrightarrow>
           \<bar>(\<Sum>j<10. js_div (col_sum probs n j) (real n)) - 1\<bar> \<le> d + (1 + d) / 10 ^ 15) \<and>
      ((\<forall>i<n. (\<Sum>j<10. probs ! (i * 10 + j)) = 1) \<longrightarrow>
           \<bar>(\<Sum>j<10. js_div (col_sum probs n j) (real n)) - 1\<bar> \<le> 1 / 10 ^ 6))"
proof (intro conjI impI)
  show "average probs n = map (\<lambda>j. num_div (col_acc probs n j) (real n)) [0..<10]"
    by (rule average_columns)
next
  assume "length probs = 10 * n"
  then show "average probs n = map (\<lambda>j. Some (js_div (col_sum probs n j) (real n))) [0..<10]"
    by (rule average_present)
next
  assume a: "1 \<le> n \<and> n \<le> 5 \<and> (\<forall>k<10 * n. 0 \<le> probs ! k)"
  show "\<forall>j<10. \<bar>js_div (col_sum probs n j) (real n) - (\<Sum>i<n. probs ! (i * 10 + j)) / real n\<bar>
                \<le> ((\<Sum>i<n. probs ! (i * 10 + j)) / real n) / 10 ^ 15"
  proof (intro allI impI)
    fix j :: nat assume j: "j < 10"
    have "\<forall>i<n. 0 \<le> probs ! (i * 10 + j)"
    proof (intro allI impI)
      fix i :: nat assume "i < n"
      with j have "i * 10 + j < 10 * n" by simp
      with a show "0 \<le> probs ! (i * 10 + j)" by blast
    qed
    with a have "\<bar>js_div (col_sum probs n j) (real n) - col_exact probs n j / real n\<bar>
           \<le> (col_exact probs n j / real n) / 10 ^ 15"
      by (intro mean_entry_close) blast+
    then show "\<bar>js_div (col_sum probs n j) (real n) - (\<Sum>i<n. probs ! (i * 10 + j)) / real n\<bar>
                \<le> ((\<Sum>i<n. probs ! (i * 10 + j)) / real n) / 10 ^ 15"
      unfolding col_exact_def .
  qed
next
  assume a: "1 \<le> n \<and> n \<le> 5 \<and> (\<forall>k<10 * n. 0 \<le> probs ! k)"
  show "\<forall>d. (\<forall>i<n. \<bar>(\<Sum>j<10. probs ! (i * 10 + j)) - 1\<bar> \<le> d) \<longrightarrow>
           \<bar>(\<Sum>j<10. js_div (col_sum probs n j) (real n)) - 1\<bar> \<le> d + (1 + d) / 10 ^ 15"
  proof (intro allI impI)
    fix d :: real
    assume "\<forall>i<n. \<bar>(\<Sum>j<10. probs ! (i * 10 + j)) - 1\<bar> \<le> d"
    with a show "\<bar>(\<Sum>j<10. js_div (col_sum probs n j) (real n)) - 1\<bar> \<le> d + (1 + d) / 10 ^ 15"
      by (intro average_sum_close) blast+
  qed
next
  assume a: "1 \<le> n \<and> n \<le> 5 \<and> (\<forall>k<10 * n. 0 \<le> probs ! k)"
  assume r: "\<forall>i<n. (\<Sum>j<10. probs ! (i * 10 + j)) = 1"
  then have "\<forall>i<n. \<bar>(\<Sum>j<10. probs ! (i * 10 + j)) - 1\<bar> \<le> 0" by simp
  with a have "\<bar>(\<Sum>j<10. js_div (col_sum probs n j) (real n)) - 1\<bar> \<le> 0 + (1 + 0) / 10 ^ 15"
    by (intro average_sum_close) blast+
  also have "\<dots> \<le> (1::real) / 10 ^ 6" by simp
  finally show "\<bar>(\<Sum>j<10. js_div (col_sum probs n j) (real n)) - 1\<bar> \<le> 1 / 10 ^ 6" .
qed

lemma two_rows_average:
  "map (\<lambda>j. Some (js_div (col_sum two_rows 2 j) (real 2))) [0..<10] =
     map Some [5 / 16, 3 / 16, 1 / 4, 1 / 4, 0, 0, 0, 0, 0, 0]"
  unfolding col_sum_def js_div_def js_add_def two_rows_def by code_simp

lemma tenths_rows:
  "\<forall>i<2. \<bar>(\<Sum>j<10. tenths ! (i * 10 + j)) - 1\<bar> \<le> 1 / 67108864"
proof (intro allI impI)
  fix i :: nat assume i: "i < 2"
  have "(\<Sum>j<10. tenths ! (i * 10 + j)) = (\<Sum>j<(10::nat). 13421773 / 134217728)"
  proof (rule sum.cong)
    fix j :: nat assume "j \<in> {..<10}"
    with i have "i * 10 + j < 20" by simp
    then show "tenths ! (i * 10 + j) = 13421773 / 134217728" by (simp add: tenths_def)
  qed simp
  then show "\<bar>(\<Sum>j<10. tenths ! (i * 10 + j)) - 1\<bar> \<le> 1 / 67108864" by simp
qed

lemma tenths_nonneg: "\<forall>k<10 * 2. 0 \<le> tenths ! k"
  by (simp add: tenths_def)

text \<open>
  Two exact rows, and two rows of float32 tenths, which do not sum to 1 exactly.
\<close>

theorem average_is_column_mean_witness:
  "average two_rows 2 = map Some [5 / 16, 3 / 16, 1 / 4, 1 / 4, 0, 0, 0, 0, 0, 0] \<and>
   \<not> (\<forall>i<2. (\<Sum>j<10. tenths ! (i * 10 + j)) = 1) \<and>
   \<bar>(\<Sum>j<10. js_div (col_sum tenths 2 j) (real 2)) - 1\<bar> \<le> 1 / 10 ^ 6"
proof -
  have h3: "length two_rows = 10 * 2" by (simp add: two_rows_def)
  from average_is_column_mean[of two_rows 2] h3
  have "average two_rows 2 = map (\<lambda>j. Some (js_div (col_sum two_rows 2 j) (real 2))) [0..<10]"
    by blast
  then have 1: "average two_rows 2 = map Some [5 / 16, 3 / 16, 1 / 4, 1 / 4, 0, 0, 0, 0, 0, 0]"
    unfolding two_rows_average .
  have "(1::nat) \<le> 2 \<and> (2::nat) \<le> 5 \<and> (\<forall>k<10 * 2. 0 \<le> tenths ! k)"
    using tenths_nonneg by simp
  with average_is_column_mean[of tenths 2] tenths_rows
  have "\<bar>(\<Sum>j<10. js_div (col_sum tenths 2 j) (real 2)) - 1\<bar>
          \<le> 1 / 67108864 + (1 + 1 / 67108864) / 10 ^ 15"
    by blast
  also have "\<dots> \<le> (1::real) / 10 ^ 6" by simp
  finally have 2: "\<bar>(\<Sum>j<10. js_div (col_sum tenths 2 j) (real 2)) - 1\<bar> \<le> 1 / 10 ^ 6" .
  have "(\<Sum>j<10. tenths ! (0 * 10 + j)) = (\<Sum>j<(10::nat). 13421773 / 134217728)"
    by (rule sum.cong) (simp_all add: tenths_def)
  then have "(\<Sum>j<10. tenths ! (0 * 10 + j)) \<noteq> 1" by simp
  then have 3: "\<not> (\<forall>i<2. (\<Sum>j<10. tenths ! (i * 10 + j)) = 1)"
    by (metis zero_less_numeral)
  from 1 3 2 show ?thesis by (intro conjI)
qed

section \<open>The contender ranking\<close>

lemma fl_le_0_iff: "fl x \<le> 0 \<longleftrightarrow> x \<le> 0"
  using fl_pos[of x] fl_neg[of x] by (cases "x = 0"; cases "0 < x") (auto simp: not_less)

lemma by_prob_le: "by_prob a b \<le> 0 \<longleftrightarrow> fst b \<le> fst a"
  by (simp add: js_sub_def fl_le_0_iff)

lemma set_js_insort: "set (js_insort cmp a ys) = insert a (set ys)"
  by (induction ys) auto

lemma mset_js_insort: "mset (js_insort cmp a ys) = add_mset a (mset ys)"
  by (induction ys) auto

lemma mset_js_sort: "mset (js_sort cmp xs) = mset xs"
  by (induction xs) (simp_all add: js_sort_def mset_js_insort)

lemma set_js_sort: "set (js_sort cmp xs) = set xs"
  using mset_js_sort[of cmp xs] by (metis set_mset_mset)

lemma ranks_before_trans: "ranks_before a b \<Longrightarrow> ranks_before b c \<Longrightarrow> ranks_before a c"
  by (auto simp: ranks_before_def)

lemma sorted_js_insort:
  assumes "sorted_wrt ranks_before ys" "\<forall>y\<in>set ys. snd a < snd y"
  shows "sorted_wrt ranks_before (js_insort by_prob a ys)"
  using assms
proof (induction ys)
  case Nil
  then show ?case by simp
next
  case (Cons b bs)
  show ?case
  proof (cases "fst b \<le> fst a")
    case True
    then have ab: "ranks_before a b" using Cons.prems(2) by (auto simp: ranks_before_def)
    have "\<forall>y\<in>set bs. ranks_before a y"
      using Cons.prems(1) ab by (auto intro: ranks_before_trans)
    with ab Cons.prems(1) True show ?thesis by (simp add: by_prob_le)
  next
    case False
    then have ba: "ranks_before b a" by (simp add: ranks_before_def)
    have "sorted_wrt ranks_before (js_insort by_prob a bs)"
      using Cons by simp
    with ba Cons.prems(1) False show ?thesis
      by (simp add: by_prob_le set_js_insort)
  qed
qed

lemma sorted_js_sort:
  assumes "sorted_wrt (\<lambda>a b. snd a < snd b) xs"
  shows "sorted_wrt ranks_before (js_sort by_prob xs)"
  using assms
proof (induction xs)
  case Nil
  then show ?case by (simp add: js_sort_def)
next
  case (Cons x xs)
  have "sorted_wrt ranks_before (js_sort by_prob xs)" using Cons by simp
  moreover have "\<forall>y\<in>set (js_sort by_prob xs). snd x < snd y"
    using Cons.prems by (simp add: set_js_sort)
  ultimately have "sorted_wrt ranks_before (js_insort by_prob x (js_sort by_prob xs))"
    by (rule sorted_js_insort)
  then show ?case by (simp add: js_sort_def)
qed

lemma indexed_increasing: "sorted_wrt (\<lambda>a b. snd a < snd b) (zip avg [0..<length avg])"
proof -
  have "map snd (zip avg [0..<length avg]) = [0..<length avg]" by simp
  moreover have "sorted_wrt (<) [0..<length avg]" by (rule sorted_wrt_upt)
  ultimately have "sorted_wrt (<) (map snd (zip avg [0..<length avg]))" by (simp only:)
  then show ?thesis by (simp only: sorted_wrt_map)
qed

lemma example_ranking:
  "contenders example_avg = [(fl (6 / 10), 2), (fl (1 / 10), 0), (fl (1 / 10), 6)]"
  unfolding contenders_def ranking_def example_avg_def js_sort_def js_sub_def
  by code_simp

lemma example_percent: "js_mul (fl (6 / 10)) 100 = 60" "js_mul (fl (1 / 10)) 100 = 10"
  unfolding js_mul_def by code_simp+

text \<open>
  Claim C7. The ranking is a rearrangement of all classes paired with their
  probabilities, ordered by descending probability with ties in ascending class index,
  and the contender list is its first three entries. For the example vector these are
  class 2 (60 percent), class 0 and class 6 (10 percent each), class 0 before class 6.
\<close>

theorem contenders_top3_stable:
  "mset (ranking avg) = mset (zip avg [0..<length avg]) \<and>
   sorted_wrt ranks_before (ranking avg) \<and>
   contenders avg = take 3 (ranking avg) \<and>
   contenders example_avg = [(fl (6 / 10), 2), (fl (1 / 10), 0), (fl (1 / 10), 6)] \<and>
   js_mul (fl (6 / 10)) 100 = 60 \<and> js_mul (fl (1 / 10)) 100 = 10"
  using example_ranking example_percent
  by (simp add: ranking_def mset_js_sort sorted_js_sort indexed_increasing contenders_def)

section \<open>The two copies of the preprocessing agree\<close>

lemma bbox_step_part000_eq: "bbox_step_part000 = bbox_step"
  by (intro ext) (simp add: bbox_step_part000_def bbox_step_def)

lemma com_step_part000_eq: "com_step_part000 = com_step"
  by (intro ext) (simp add: com_step_part000_def com_step_def)

text \<open>
  Claim C10. For every pixel array, width and height, \<^verbatim>\<open>getBoundingBox\<close> and
  \<^verbatim>\<open>getCenterOfMass\<close> of script.js return what the functions of the same names in the
  second copy of the pipeline return.
\<close>

theorem preprocessing_copies_equal:
  "getBoundingBox_part000 data w h = getBoundingBox data w h \<and>
   getCenterOfMass_part000 data w h = getCenterOfMass data w h"
  by (simp add: getBoundingBox_part000_def getBoundingBox_def getCenterOfMass_part000_def
      getCenterOfMass_def bbox_step_part000_eq com_step_part000_eq)

end
